theory Spec2Isabelle
  imports Complex_Main "HOL-Library.Log_Nat"
begin

section \<open>JavaScript Numbers\<close>

text \<open>
  Banner.ts computes with JavaScript Numbers: IEEE 754 binary64 values with the two
  infinities and NaN. A finite Number is held as the rational it denotes; every
  arithmetic operator computes the exact rational result and rounds it to the nearest
  binary64 value (ties to even), as the language prescribes. The sign of zero is not
  kept: the only divisors in Banner.ts are element dimensions (non-negative integers of
  the DOM) and the literal 100000, so a zero divisor is always \<open>+0\<close>.

  One value that is not a Number reaches the arithmetic: \<open>undefined\<close>, which a
  destructuring \<open>[a, b] = array\<close> gives to \<open>b\<close> when the array has one element. An
  operator converts it to NaN first.
\<close>

datatype jsval = Fin rat | PInf | NInf | NaN | Undefined

definition flog2 :: "rat \<Rightarrow> int" where
  \<comment> \<open>the binary exponent of a positive rational: the floor of its base-2 logarithm\<close>
  "flog2 q = (case quotient_of q of (a, b) \<Rightarrow>
     let k = bitlen a - bitlen b in if 2 powi k \<le> q then k else k - 1)"

definition round_even :: "rat \<Rightarrow> int" where
  \<comment> \<open>nearest integer, a tie going to the even neighbour\<close>
  "round_even v = (let f = \<lfloor>v\<rfloor>; d = v - of_int f in
     if d < 1 / 2 then f else if 1 / 2 < d then f + 1 else if even f then f else f + 1)"

definition ulp :: "rat \<Rightarrow> rat" where
  \<comment> \<open>spacing of binary64 values around \<open>q\<close>: 53 significant bits, subnormal below \<open>2 powi - 1022\<close>\<close>
  "ulp q = 2 powi (max (flog2 \<bar>q\<bar>) (- 1022) - 52)"

definition binary64_limit :: rat where
  "binary64_limit = 2 powi 1024"

definition rnd_val :: "rat \<Rightarrow> rat" where
  \<comment> \<open>the nearest multiple of the spacing, ties to the even multiple\<close>
  "rnd_val q = of_int (round_even (q / ulp q)) * ulp q"

definition rnd :: "rat \<Rightarrow> jsval" where
  \<comment> \<open>round to nearest binary64; a result of magnitude \<open>2 powi 1024\<close> overflows to an infinity\<close>
  "rnd q = (if q = 0 then Fin 0 else
     let r = rnd_val q
     in if binary64_limit \<le> r then PInf else if r \<le> - binary64_limit then NInf else Fin r)"

definition inf_of_sign :: "rat \<Rightarrow> jsval" where
  "inf_of_sign s = (if 0 < s then PInf else if s < 0 then NInf else NaN)"

fun num_add :: "jsval \<Rightarrow> jsval \<Rightarrow> jsval" where
  "num_add (Fin a) (Fin b) = rnd (a + b)"
| "num_add (Fin a) PInf = PInf"
| "num_add (Fin a) NInf = NInf"
| "num_add PInf (Fin b) = PInf"
| "num_add PInf PInf = PInf"
| "num_add PInf NInf = NaN"
| "num_add NInf (Fin b) = NInf"
| "num_add NInf NInf = NInf"
| "num_add NInf PInf = NaN"
| "num_add NaN _ = NaN"
| "num_add _ NaN = NaN"
| "num_add Undefined _ = NaN"
| "num_add _ Undefined = NaN"

fun num_sub :: "jsval \<Rightarrow> jsval \<Rightarrow> jsval" where
  "num_sub (Fin a) (Fin b) = rnd (a - b)"
| "num_sub (Fin a) PInf = NInf"
| "num_sub (Fin a) NInf = PInf"
| "num_sub PInf (Fin b) = PInf"
| "num_sub PInf NInf = PInf"
| "num_sub PInf PInf = NaN"
| "num_sub NInf (Fin b) = NInf"
| "num_sub NInf PInf = NInf"
| "num_sub NInf NInf = NaN"
| "num_sub NaN _ = NaN"
| "num_sub _ NaN = NaN"
| "num_sub Undefined _ = NaN"
| "num_sub _ Undefined = NaN"

fun num_mul :: "jsval \<Rightarrow> jsval \<Rightarrow> jsval" where
  "num_mul (Fin a) (Fin b) = rnd (a * b)"
| "num_mul (Fin a) PInf = inf_of_sign a"
| "num_mul (Fin a) NInf = inf_of_sign (- a)"
| "num_mul PInf (Fin b) = inf_of_sign b"
| "num_mul NInf (Fin b) = inf_of_sign (- b)"
| "num_mul PInf PInf = PInf"
| "num_mul PInf NInf = NInf"
| "num_mul NInf PInf = NInf"
| "num_mul NInf NInf = PInf"
| "num_mul NaN _ = NaN"
| "num_mul _ NaN = NaN"
| "num_mul Undefined _ = NaN"
| "num_mul _ Undefined = NaN"

fun num_div :: "jsval \<Rightarrow> jsval \<Rightarrow> jsval" where
  "num_div (Fin a) (Fin b) = (if b = 0 then inf_of_sign a else rnd (a / b))"
| "num_div (Fin a) PInf = Fin 0"
| "num_div (Fin a) NInf = Fin 0"
| "num_div PInf (Fin b) = (if 0 \<le> b then PInf else NInf)"
| "num_div NInf (Fin b) = (if 0 \<le> b then NInf else PInf)"
| "num_div PInf PInf = NaN"
| "num_div PInf NInf = NaN"
| "num_div NInf PInf = NaN"
| "num_div NInf NInf = NaN"
| "num_div NaN _ = NaN"
| "num_div _ NaN = NaN"
| "num_div Undefined _ = NaN"
| "num_div _ Undefined = NaN"

fun num_le :: "jsval \<Rightarrow> jsval \<Rightarrow> bool" where
  "num_le (Fin a) (Fin b) = (a \<le> b)"
| "num_le (Fin a) PInf = True"
| "num_le (Fin a) NInf = False"
| "num_le PInf (Fin b) = False"
| "num_le PInf PInf = True"
| "num_le PInf NInf = False"
| "num_le NInf (Fin b) = True"
| "num_le NInf PInf = True"
| "num_le NInf NInf = True"
| "num_le NaN _ = False"
| "num_le _ NaN = False"
| "num_le Undefined _ = False"
| "num_le _ Undefined = False"

definition num_ge :: "jsval \<Rightarrow> jsval \<Rightarrow> bool" where
  "num_ge a b = num_le b a"

fun Math_round :: "jsval \<Rightarrow> jsval" where
  \<comment> \<open>\<open>Math.round\<close>: the nearest integer, a tie going towards \<open>+\<infinity>\<close>\<close>
  "Math_round (Fin r) = Fin (of_int \<lfloor>r + 1 / 2\<rfloor>)"
| "Math_round PInf = PInf"
| "Math_round NInf = NInf"
| "Math_round NaN = NaN"
| "Math_round Undefined = NaN"

definition clamp :: "jsval \<Rightarrow> jsval \<Rightarrow> jsval \<Rightarrow> jsval" where
  \<comment> \<open>\<open>lodash/clamp\<close> (imported by Banner.ts, not part of it) for Number bounds: the
      argument is converted to a Number; NaN is returned as it is (\<open>number === number\<close>
      fails), any other Number is first capped by \<open>upper\<close>, then raised to \<open>lower\<close>\<close>
  "clamp number lower upper =
     (if number = NaN \<or> number = Undefined then NaN
      else let capped = (if num_le number upper then number else upper)
           in if num_ge capped lower then capped else lower)"

section \<open>Events, the image element and the drag session\<close>

text \<open>
  The handlers are attached to the banner image, which has no children, so \<open>e.target\<close>
  is always that image. Its geometry can change between events (the pane is resized), so
  every event carries the geometry the image has when the event is handled; the style of
  the image is state of the banner (below).
\<close>

record HTMLImageElement =
  clientHeight :: nat
  clientWidth :: nat
  naturalHeight :: nat
  naturalWidth :: nat

record UIEvent =
  altKey :: bool
  ctrlKey :: bool
  metaKey :: bool
  shiftKey :: bool
  target :: HTMLImageElement

record Touch =
  clientX :: rat
  clientY :: rat

text \<open>\<open>type MTEvent = MouseEvent | TouchEvent\<close>: a mouse event has its own client
  coordinates, a touch event the list \<open>targetTouches\<close>.\<close>

datatype MTEvent = MouseEvent UIEvent rat rat | TouchEvent UIEvent "Touch list"

fun ui :: "MTEvent \<Rightarrow> UIEvent" where
  "ui (MouseEvent u cx cy) = u"
| "ui (TouchEvent u ts) = u"

fun instanceof_MouseEvent :: "MTEvent \<Rightarrow> bool" where
  "instanceof_MouseEvent (MouseEvent u cx cy) = True"
| "instanceof_MouseEvent (TouchEvent u ts) = False"

text \<open>\<open>interface IDragData\<close>. The fields \<open>x\<close> and \<open>y\<close> are written \<open>x_last\<close> and
  \<open>y_last\<close>; they start as \<open>null\<close> (\<open>None\<close>).\<close>

record IDragData =
  x_last :: "rat option"
  y_last :: "rat option"
  isDragging :: bool
  vertical :: bool

text \<open>Modelled from the spec: the type \<open>BannerDragModOption\<close> is declared in Settings.ts,
  which is not among the sources; the modifier-key policy is one of none-required, alt,
  ctrl, meta, shift.\<close>

datatype BannerDragModOption = ModNone | ModAlt | ModCtrl | ModMeta | ModShift

datatype exn = TypeError

definition to_number :: "rat option \<Rightarrow> jsval" where
  \<comment> \<open>a stored coordinate used in arithmetic: \<open>null\<close> converts to 0\<close>
  "to_number v = (case v of None \<Rightarrow> Fin 0 | Some c \<Rightarrow> Fin c)"

definition getMousePos :: "MTEvent \<Rightarrow> exn + rat \<times> rat" where
  \<comment> \<open>\<open>e.targetTouches[0]\<close> of an empty list is \<open>undefined\<close>, and destructuring it throws\<close>
  "getMousePos e =
     (case e of
        MouseEvent u cx cy \<Rightarrow> Inr (cx, cy)
      | TouchEvent u ts \<Rightarrow>
          (case ts of [] \<Rightarrow> Inl TypeError | t # _ \<Rightarrow> Inr (clientX t, clientY t)))"

definition isModPressed :: "MTEvent \<Rightarrow> BannerDragModOption \<Rightarrow> bool" where
  "isModPressed e modifier =
     (case modifier of
        ModAlt \<Rightarrow> altKey (ui e)
      | ModCtrl \<Rightarrow> ctrlKey (ui e)
      | ModMeta \<Rightarrow> metaKey (ui e)
      | ModShift \<Rightarrow> shiftKey (ui e)
      | ModNone \<Rightarrow> True)"

definition axis_lock :: "HTMLImageElement \<Rightarrow> bool" where
  \<comment> \<open>\<open>naturalHeight / naturalWidth >= clientHeight / clientWidth\<close>\<close>
  "axis_lock img =
     num_ge (num_div (Fin (of_nat (naturalHeight img))) (Fin (of_nat (naturalWidth img))))
            (num_div (Fin (of_nat (clientHeight img))) (Fin (of_nat (clientWidth img))))"

text \<open>
  A handler that throws returns \<open>Inl\<close>. Both handlers call \<open>getMousePos\<close> before their
  first assignment, so a thrown exception leaves every field as it was.
\<close>

definition handleDragStart ::
  "MTEvent \<Rightarrow> IDragData \<Rightarrow> BannerDragModOption \<Rightarrow> exn + IDragData" where
  "handleDragStart e dragData modRequired =
     (if \<not> isModPressed e modRequired \<and> instanceof_MouseEvent e then Inr dragData
      else case getMousePos e of
        Inl err \<Rightarrow> Inl err
      | Inr (px, py) \<Rightarrow>
          Inr (dragData\<lparr>x_last := Some px, y_last := Some py, isDragging := True,
                 vertical := axis_lock (target (ui e))\<rparr>))"

subsection \<open>The style of the image\<close>

text \<open>
  \<open>img.style.objectPosition\<close> is only ever assigned a string \<open>`${a}% ${b}%`\<close> of two
  values, and only ever read through \<open>split(' ')\<close>, \<open>parseFloat\<close> and a destructuring
  \<open>[x, y] = ...\<close>. The style is held as the pair that reading returns.

  The element is the platform's, not Banner.ts's. Obsidian runs on Chromium, whose inline
  style behaves as follows.
  \<^item> A new element has the empty style \<open>""\<close>. Split and parsed it is the one-element
    array \<open>[NaN]\<close>, so it reads as \<open>(NaN, Undefined)\<close>.
  \<^item> An assignment whose string is not a valid position is ignored and the style stays as
    it was. \<open>`${a}% ${b}%`\<close> is valid exactly when \<open>a\<close> and \<open>b\<close> are finite Numbers:
    \<open>NaN%\<close>, \<open>Infinity%\<close> and \<open>undefined%\<close> are not percentages.
  \<^item> A valid assignment is stored, and the style reads back with each number written to
    6 significant decimal digits (a tie going away from zero). \<open>parseFloat\<close> then gives
    the binary64 value nearest to that decimal: after assigning \<open>"33.300000000000004% 50%"\<close>
    the style reads \<open>"33.3% 50%"\<close>, which is \<open>(rnd (333 / 10), Fin 50)\<close>.
\<close>

type_synonym objpos = "jsval \<times> jsval"

definition declen :: "int \<Rightarrow> int" where
  \<comment> \<open>the number of decimal digits of a positive integer\<close>
  "declen a = int (floorlog 10 (nat a))"

definition flog10 :: "rat \<Rightarrow> int" where
  \<comment> \<open>the decimal exponent of a positive rational: the floor of its base-10 logarithm\<close>
  "flog10 q = (case quotient_of q of (a, b) \<Rightarrow>
     let k = declen a - declen b in if 10 powi k \<le> q then k else k - 1)"

definition dec_unit :: "rat \<Rightarrow> rat" where
  \<comment> \<open>the unit of the sixth significant decimal digit of \<open>q\<close>\<close>
  "dec_unit q = 10 powi (flog10 \<bar>q\<bar> - 5)"

definition dec6 :: "rat \<Rightarrow> rat" where
  \<comment> \<open>the decimal of 6 significant digits nearest to \<open>q\<close>, a tie going away from zero\<close>
  "dec6 q = (if q = 0 then 0 else
     let s = dec_unit q; m = \<lfloor>\<bar>q\<bar> / s + 1 / 2\<rfloor>
     in sgn q * of_int m * s)"

fun serialized :: "jsval \<Rightarrow> jsval" where
  \<comment> \<open>what \<open>parseFloat\<close> reads from the style for a finite Number that was assigned\<close>
  "serialized (Fin q) = rnd (dec6 q)"
| "serialized v = v"

fun finite_number :: "jsval \<Rightarrow> bool" where
  "finite_number (Fin q) = True"
| "finite_number v = False"

definition unset_style :: objpos where
  "unset_style = (NaN, Undefined)"

definition set_objectPosition :: "objpos \<Rightarrow> jsval \<Rightarrow> jsval \<Rightarrow> objpos" where
  \<comment> \<open>\<open>img.style.objectPosition = `${a}% ${b}%`\<close> on an element whose style reads \<open>old\<close>\<close>
  "set_objectPosition old a b =
     (if finite_number a \<and> finite_number b then (serialized a, serialized b) else old)"

definition delta_percent :: "rat option \<Rightarrow> rat \<Rightarrow> nat \<Rightarrow> jsval" where
  \<comment> \<open>\<open>(dragData.x - x) / img.clientWidth * 100\<close>, and the same for \<open>y\<close> and the height\<close>
  "delta_percent stored current dimension =
     num_mul (num_div (num_sub (to_number stored) (Fin current)) (Fin (of_nat dimension))) (Fin 100)"

text \<open>\<open>handleDragMove\<close> takes the style as the element holds it and returns it as the
  element holds it after the handler's assignment.\<close>

definition handleDragMove :: "MTEvent \<Rightarrow> IDragData \<Rightarrow> objpos \<Rightarrow> exn + IDragData \<times> objpos" where
  "handleDragMove e dragData pos =
     (if \<not> isDragging dragData then Inr (dragData, pos)
      else case getMousePos e of
        Inl err \<Rightarrow> Inl err
      | Inr (px, py) \<Rightarrow>
          let img = target (ui e);
              delta_x = delta_percent (x_last dragData) px (clientWidth img);
              delta_y = delta_percent (y_last dragData) py (clientHeight img);
              dragData' = dragData\<lparr>x_last := Some px, y_last := Some py\<rparr>;
              currentX = fst pos;
              currentY = snd pos
          in if vertical dragData'
             then Inr (dragData',
                    set_objectPosition pos currentX (clamp (num_add currentY delta_y) (Fin 0) (Fin 100)))
             else Inr (dragData',
                    set_objectPosition pos (clamp (num_add currentX delta_x) (Fin 0) (Fin 100)) currentY))"

text \<open>The argument of \<open>upsertBannerData\<close>: an object literal \<open>{ y }\<close> or \<open>{ x }\<close>; a field
  that is absent is \<open>None\<close>, a field that is there holds its value, which is \<open>Undefined\<close>
  when the variable was.\<close>

record Patch =
  x_field :: "jsval option"
  y_field :: "jsval option"

definition normalized :: "jsval \<Rightarrow> jsval" where
  \<comment> \<open>\<open>n => Math.round(parseFloat(n) * 1000) / 100000\<close>, mapped over the array that was
      read; an element the array does not have is not mapped and stays \<open>undefined\<close>\<close>
  "normalized n =
     (if n = Undefined then Undefined
      else num_div (Math_round (num_mul n (Fin 1000))) (Fin 100000))"

text \<open>\<open>handleDragEnd\<close> returns the session and the call of \<open>upsertBannerData\<close> it
  issues, if any. The call is issued before the handler awaits anything.\<close>

definition handleDragEnd ::
  "objpos \<Rightarrow> string \<Rightarrow> IDragData \<Rightarrow> IDragData \<times> (string \<times> Patch) option" where
  "handleDragEnd pos path dragData =
     (if \<not> isDragging dragData then (dragData, None)
      else let dragData' = dragData\<lparr>isDragging := False\<rparr>;
               x = normalized (fst pos);
               y = normalized (snd pos)
           in (dragData',
               Some (path, if vertical dragData'
                           then \<lparr>x_field = None, y_field = Some y\<rparr>
                           else \<lparr>x_field = Some x, y_field = None\<rparr>)))"

section \<open>The banner\<close>

text \<open>Modelled from the spec: \<open>IBannerMetadata\<close> (MetaManager.ts) and the plugin settings
  (Settings.ts) are not among the sources. The metadata has the optional normalized
  position \<open>x\<close>, \<open>y\<close> and the \<open>lock\<close> flag; the settings have the modifier-key policy and
  the switch that enables dragging by touch.\<close>

record IBannerMetadata =
  x_meta :: "jsval option"
  y_meta :: "jsval option"
  lock :: bool

record Settings =
  bannerDragModifier :: BannerDragModOption
  allowMobileDrag :: bool

text \<open>
  What \<open>getBannerElements\<close> sets up and its closures share: the drag session, the style
  of the image, which handlers are attached, the modifier policy and the file path the
  handlers were created with, and the calls of \<open>upsertBannerData\<close> issued so far, oldest
  first. The message box, the CSS classes and the resolution of the image source take no
  part in dragging and are left out.
\<close>

record Banner =
  dragData :: IDragData
  objectPosition :: objpos
  upserts :: "(string \<times> Patch) list"
  mouseAttached :: bool
  touchAttached :: bool
  modRequired :: BannerDragModOption
  path :: string

definition getBannerElements :: "Settings \<Rightarrow> IBannerMetadata \<Rightarrow> string \<Rightarrow> bool \<Rightarrow> Banner" where
  "getBannerElements settings bannerData filepath isEmbed =
     (let x = (case x_meta bannerData of None \<Rightarrow> Fin (1 / 2)
                | Some v \<Rightarrow> if v = Undefined then Fin (1 / 2) else v);
          y = (case y_meta bannerData of None \<Rightarrow> Fin (1 / 2)
                | Some v \<Rightarrow> if v = Undefined then Fin (1 / 2) else v);
          canDrag = (\<not> isEmbed \<and> \<not> lock bannerData);
          clampedX = clamp x (Fin 0) (Fin 1);
          clampedY = clamp y (Fin 0) (Fin 1)
      in \<lparr>dragData = \<lparr>x_last = None, y_last = None, isDragging = False, vertical = True\<rparr>,
          objectPosition =
            set_objectPosition unset_style (num_mul clampedX (Fin 100)) (num_mul clampedY (Fin 100)),
          upserts = [],
          mouseAttached = canDrag,
          touchAttached = (canDrag \<and> allowMobileDrag settings),
          modRequired = bannerDragModifier settings,
          path = filepath\<rparr>)"

text \<open>
  The events the banner listens to: \<open>mousedown\<close> and \<open>touchstart\<close> (\<open>Start\<close>),
  \<open>mousemove\<close> and \<open>touchmove\<close> (\<open>Moved\<close>) on the image, \<open>mouseup\<close> and \<open>touchend\<close> on
  the containing frame. One event is handled to completion before the next; an exception
  thrown by a handler is reported by the browser and the state stays as the handler left
  it.
\<close>

datatype DomEvent = Start MTEvent | Moved MTEvent | MouseUp | TouchEnd

fun listening :: "Banner \<Rightarrow> DomEvent \<Rightarrow> bool" where
  "listening b (Start e) = (if instanceof_MouseEvent e then mouseAttached b else touchAttached b)"
| "listening b (Moved e) = (if instanceof_MouseEvent e then mouseAttached b else touchAttached b)"
| "listening b MouseUp = mouseAttached b"
| "listening b TouchEnd = touchAttached b"

definition on_start :: "Banner \<Rightarrow> MTEvent \<Rightarrow> Banner" where
  "on_start b e =
     (case handleDragStart e (dragData b) (modRequired b) of
        Inl err \<Rightarrow> b
      | Inr d \<Rightarrow> b\<lparr>dragData := d\<rparr>)"

definition on_move :: "Banner \<Rightarrow> MTEvent \<Rightarrow> Banner" where
  "on_move b e =
     (case handleDragMove e (dragData b) (objectPosition b) of
        Inl err \<Rightarrow> b
      | Inr (d, pos) \<Rightarrow> b\<lparr>dragData := d, objectPosition := pos\<rparr>)"

definition on_end :: "Banner \<Rightarrow> Banner" where
  "on_end b =
     (case handleDragEnd (objectPosition b) (path b) (dragData b) of
        (d, call) \<Rightarrow>
          b\<lparr>dragData := d,
            upserts := upserts b @ (case call of None \<Rightarrow> [] | Some c \<Rightarrow> [c])\<rparr>)"

definition dispatch :: "Banner \<Rightarrow> DomEvent \<Rightarrow> Banner" where
  "dispatch b ev =
     (if \<not> listening b ev then b
      else case ev of
        Start e \<Rightarrow> on_start b e
      | Moved e \<Rightarrow> on_move b e
      | MouseUp \<Rightarrow> on_end b
      | TouchEnd \<Rightarrow> on_end b)"

definition run :: "Banner \<Rightarrow> DomEvent list \<Rightarrow> Banner" where
  "run b evs = foldl dispatch b evs"

text \<open>
  The initial percentage in the words of the specification: a missing component defaults
  to 0.5, the component is clamped into [0, 1] and rendered as a percentage. A component
  that is NaN is not ordered and cannot be clamped: it has no percentage, which is
  written NaN.
\<close>

definition initial_percent :: "jsval option \<Rightarrow> jsval" where
  "initial_percent v =
     (case v of
        None \<Rightarrow> Fin 50
      | Some NaN \<Rightarrow> NaN
      | Some PInf \<Rightarrow> Fin 100
      | Some NInf \<Rightarrow> Fin 0
      | Some Undefined \<Rightarrow> Fin 50
      | Some (Fin q) \<Rightarrow> if q \<le> 0 then Fin 0 else if 1 \<le> q then Fin 100 else rnd (q * 100))"

definition one_axis :: "Patch \<Rightarrow> bool" where
  \<comment> \<open>exactly one of the two fields is present\<close>
  "one_axis p = ((x_field p = None) \<noteq> (y_field p = None))"

definition axis_patch :: "bool \<Rightarrow> jsval \<Rightarrow> Patch" where
  \<comment> \<open>the patch with the single field of the given axis (\<open>True\<close>: vertical, the field \<open>y\<close>)\<close>
  "axis_patch v n = (if v then \<lparr>x_field = None, y_field = Some n\<rparr>
                     else \<lparr>x_field = Some n, y_field = None\<rparr>)"

section \<open>Example inputs\<close>

text \<open>
  A banner image rendered 400 pixels wide and 200 pixels tall. With a square picture the
  natural aspect ratio 1 is at least the rendered ratio 0.5 and the vertical axis is
  locked; with a picture eight times as wide as tall (ratio 0.125) the horizontal axis
  is. The other two images have collapsed to a height of zero and to a width of zero.
\<close>

definition img_v :: HTMLImageElement where
  "img_v = \<lparr>clientHeight = 200, clientWidth = 400, naturalHeight = 800, naturalWidth = 800\<rparr>"

definition img_h :: HTMLImageElement where
  "img_h = \<lparr>clientHeight = 200, clientWidth = 400, naturalHeight = 100, naturalWidth = 800\<rparr>"

definition img_flat :: HTMLImageElement where
  "img_flat = \<lparr>clientHeight = 0, clientWidth = 400, naturalHeight = 800, naturalWidth = 800\<rparr>"

definition img_thin :: HTMLImageElement where
  "img_thin = \<lparr>clientHeight = 200, clientWidth = 0, naturalHeight = 800, naturalWidth = 800\<rparr>"

definition no_keys :: "HTMLImageElement \<Rightarrow> UIEvent" where
  "no_keys img =
     \<lparr>altKey = False, ctrlKey = False, metaKey = False, shiftKey = False, target = img\<rparr>"

definition settings_ex :: Settings where
  "settings_ex = \<lparr>bannerDragModifier = ModNone, allowMobileDrag = True\<rparr>"

definition banner_ex :: Banner where
  "banner_ex =
     getBannerElements settings_ex \<lparr>x_meta = None, y_meta = None, lock = False\<rparr> ''note.md'' False"

definition drag_ex :: IDragData where
  \<comment> \<open>a session in progress, last seen at (100, 100), vertical axis locked\<close>
  "drag_ex = \<lparr>x_last = Some 100, y_last = Some 100, isDragging = True, vertical = True\<rparr>"

section \<open>Rounding to binary64\<close>

lemma binary64_limit_code [code]:
  "binary64_limit = 179769313486231590772930519078902473361797697894230657273430081157732675805500963132708477322407536021120113879871393357658789768814416622492847430639474124377767893424865485276302219601246094119453082952085005768838150682342462881473913110540827237163350510684586298239947245938479716304835356329624224137216"
  by (simp add: binary64_limit_def)

lemma compute_declen [code]:
  "declen a = (if 0 < a then declen (a div 10) + 1 else 0)"
  by (simp add: declen_def nat_div_distrib compute_floorlog)

lemma flog2_bounds:
  assumes "0 < q"
  shows "2 powi (flog2 q) \<le> q \<and> q < 2 powi (flog2 q + 1)"
proof -
  obtain a b where ab: "quotient_of q = (a, b)" by (cases "quotient_of q")
  have bpos: "0 < b" using ab by (rule quotient_of_denom_pos)
  have q: "q = of_int a / of_int b" using ab by (rule quotient_of_div)
  have apos: "0 < a" using assms bpos q by (simp add: zero_less_divide_iff)
  define la where "la = bitlen a"
  define lb where "lb = bitlen b"
  have la: "2 ^ nat (la - 1) \<le> a" "a < 2 ^ nat la" and la1: "1 \<le> la"
    using bitlen_bounds[OF apos] apos by (auto simp: la_def bitlen_alt_def)
  have lb: "2 ^ nat (lb - 1) \<le> b" "b < 2 ^ nat lb" and lb1: "1 \<le> lb"
    using bitlen_bounds[OF bpos] bpos by (auto simp: lb_def bitlen_alt_def)
  have A1: "(2::rat) powi (la - 1) \<le> of_int a"
  proof -
    have "(of_int (2 ^ nat (la - 1)) :: rat) \<le> of_int a" using la(1) by (simp only: of_int_le_iff)
    then show ?thesis using la1 by (simp add: power_int_def)
  qed
  have A2: "of_int a < (2::rat) powi la"
  proof -
    have "(of_int a :: rat) < of_int (2 ^ nat la)" using la(2) by (simp only: of_int_less_iff)
    then show ?thesis using la1 by (simp add: power_int_def)
  qed
  have B1: "(2::rat) powi (lb - 1) \<le> of_int b"
  proof -
    have "(of_int (2 ^ nat (lb - 1)) :: rat) \<le> of_int b" using lb(1) by (simp only: of_int_le_iff)
    then show ?thesis using lb1 by (simp add: power_int_def)
  qed
  have B2: "of_int b < (2::rat) powi lb"
  proof -
    have "(of_int b :: rat) < of_int (2 ^ nat lb)" using lb(2) by (simp only: of_int_less_iff)
    then show ?thesis using lb1 by (simp add: power_int_def)
  qed
  have bq: "(0::rat) < of_int b" using bpos by simp
  have lo: "(2::rat) powi (la - lb - 1) \<le> q"
  proof -
    have "(2::rat) powi (la - lb - 1) * of_int b \<le> 2 powi (la - lb - 1) * 2 powi lb"
      using B2 by (intro mult_left_mono) auto
    also have "\<dots> = 2 powi (la - 1)" by (simp add: power_int_add [symmetric])
    also have "\<dots> \<le> of_int a" by (rule A1)
    finally show ?thesis using bq by (simp add: q pos_le_divide_eq)
  qed
  have hi: "q < (2::rat) powi (la - lb + 1)"
  proof -
    have "of_int a < (2::rat) powi la" by (rule A2)
    also have "\<dots> = 2 powi (la - lb + 1) * 2 powi (lb - 1)" by (simp add: power_int_add [symmetric])
    also have "\<dots> \<le> 2 powi (la - lb + 1) * of_int b"
      using B1 by (intro mult_left_mono) auto
    finally show ?thesis using bq by (simp add: q pos_divide_less_eq)
  qed
  have split: "(2::rat) powi (la - lb) = 2 * 2 powi (la - lb - 1)"
    "(2::rat) powi (la - lb + 1) = 2 * 2 powi (la - lb)"
    by (simp_all add: power_int_add power_int_diff)
  show ?thesis
    using lo hi by (auto simp: flog2_def ab la_def [symmetric] lb_def [symmetric] Let_def split)
qed


lemma round_even_bounds: "\<lfloor>x\<rfloor> \<le> round_even x \<and> round_even x \<le> \<lceil>x\<rceil>"
proof -
  have "x - of_int \<lfloor>x\<rfloor> > 0 \<Longrightarrow> \<lfloor>x\<rfloor> + 1 \<le> \<lceil>x\<rceil>"
    by linarith
  then show ?thesis
    by (auto simp: round_even_def Let_def)
qed

lemma round_even_err: "\<bar>of_int (round_even x) - x\<bar> \<le> 1 / 2"
proof -
  have "of_int \<lfloor>x\<rfloor> \<le> x" "x < of_int \<lfloor>x\<rfloor> + 1" by linarith+
  then show ?thesis
    by (auto simp: round_even_def Let_def abs_le_iff)
qed

lemma round_even_le_int: "x \<le> of_int m \<Longrightarrow> round_even x \<le> m"
  using round_even_bounds [of x] by (meson ceiling_le order_trans)

lemma round_even_nonneg: "0 \<le> x \<Longrightarrow> 0 \<le> round_even x"
  using round_even_bounds [of x] by (meson zero_le_floor order_trans)

lemma pow2_less_imp: "(2::rat) powi m < 2 powi n \<Longrightarrow> m < n"
  using power_int_increasing [of n m "2::rat"] by (cases "m < n") auto

lemma pow2_le_imp: "(2::rat) powi m \<le> 2 powi n \<Longrightarrow> m \<le> n"
  using power_int_strict_increasing [of n m "2::rat"] by (cases "m \<le> n") auto

lemma ulp_pos: "0 < ulp q"
  by (simp add: ulp_def)

lemma ulp_le:
  assumes "0 < q" "q < 2 powi k" "- 1021 \<le> k"
  shows "ulp q \<le> 2 powi (k - 53)"
proof -
  have "(2::rat) powi flog2 q < 2 powi k"
    using flog2_bounds [OF assms(1)] assms(2) by linarith
  then have "flog2 q < k" by (rule pow2_less_imp)
  then have "max (flog2 q) (- 1022) - 52 \<le> k - 53" using assms(3) by simp
  then show ?thesis
    using assms(1) by (simp add: ulp_def power_int_increasing del: max_less_iff_conj)
qed

lemma rnd_err:
  assumes "rnd q = Fin r"
  shows "\<bar>r - q\<bar> \<le> ulp q / 2"
proof (cases "q = 0")
  case True
  then show ?thesis using assms ulp_pos [of q] by (simp add: rnd_def)
next
  case False
  have r: "r = of_int (round_even (q / ulp q)) * ulp q"
    using assms False by (simp add: rnd_def rnd_val_def Let_def split: if_splits)
  have "r - q = (of_int (round_even (q / ulp q)) - q / ulp q) * ulp q"
    using ulp_pos [of q] by (simp add: r left_diff_distrib)
  then have "\<bar>r - q\<bar> = \<bar>of_int (round_even (q / ulp q)) - q / ulp q\<bar> * ulp q"
    using ulp_pos [of q] by (simp only: abs_mult abs_of_pos)
  also have "\<dots> \<le> 1 / 2 * ulp q"
    using round_even_err [of "q / ulp q"] ulp_pos [of q] by (intro mult_right_mono) auto
  finally show ?thesis by simp
qed

lemma rnd_range:
  assumes "0 \<le> q" "q \<le> of_nat N" "N \<le> 2 ^ 52"
  shows "\<exists>r. rnd q = Fin r \<and> 0 \<le> r \<and> r \<le> of_nat N"
proof (cases "q = 0")
  case True
  then show ?thesis by (simp add: rnd_def)
next
  case False
  then have qpos: "0 < q" using assms(1) by simp
  have N52: "(of_nat N :: rat) \<le> 2 powi 52"
  proof -
    have "(of_nat N :: rat) \<le> of_nat (2 ^ 52)" using assms(3) by (simp only: of_nat_le_iff)
    then show ?thesis by simp
  qed
  have "(2::rat) powi flog2 q \<le> 2 powi 52"
    using flog2_bounds [OF qpos] assms(2) N52 by linarith
  then have e52: "flog2 q \<le> 52" by (rule pow2_le_imp)
  define j where "j = nat (52 - max (flog2 q) (- 1022))"
  have u: "ulp q = 1 / 2 ^ j"
    using e52 qpos by (simp add: ulp_def j_def power_int_def field_simps)
  define M where "M = int N * 2 ^ j"
  have M: "of_nat N / ulp q = (of_int M :: rat)" by (simp add: u M_def)
  have "q / ulp q \<le> of_nat N / ulp q"
    using assms(2) ulp_pos [of q] by (simp add: divide_right_mono)
  then have hiM: "round_even (q / ulp q) \<le> M"
    using M round_even_le_int by simp
  have loM: "0 \<le> round_even (q / ulp q)"
    using qpos ulp_pos [of q] by (intro round_even_nonneg) simp
  define r where "r = (of_int (round_even (q / ulp q)) :: rat) * ulp q"
  have r0: "0 \<le> r" using loM ulp_pos [of q] by (simp add: r_def)
  have "r \<le> of_int M * ulp q"
    unfolding r_def using hiM ulp_pos [of q] by (intro mult_right_mono) auto
  also have "\<dots> = of_nat N" using M ulp_pos [of q] by (simp add: field_simps)
  finally have rN: "r \<le> of_nat N" .
  have big: "r < binary64_limit"
  proof -
    have "(2::rat) powi 52 < 2 powi 1024" by (rule power_int_strict_increasing) simp_all
    then show ?thesis using rN N52 unfolding binary64_limit_def by linarith
  qed
  have "0 < binary64_limit" by (simp add: binary64_limit_def)
  then have "rnd q = Fin r"
    using False r0 big by (simp add: rnd_def rnd_val_def Let_def r_def [symmetric])
  then show ?thesis using r0 rN by blast
qed


lemma round_even_mono:
  assumes "x \<le> y"
  shows "round_even x \<le> round_even y"
proof (cases "\<lfloor>x\<rfloor> = \<lfloor>y\<rfloor>")
  case True
  then show ?thesis using assms by (auto simp: round_even_def Let_def)
next
  case False
  then have "\<lfloor>x\<rfloor> < \<lfloor>y\<rfloor>" using assms floor_mono [of x y] by linarith
  moreover have "round_even x \<le> \<lfloor>x\<rfloor> + 1" by (auto simp: round_even_def Let_def)
  moreover have "\<lfloor>y\<rfloor> \<le> round_even y" using round_even_bounds [of y] by simp
  ultimately show ?thesis by linarith
qed

lemma round_even_of_int: "round_even (of_int m) = m"
  by (simp add: round_even_def)

lemma flog2_mono:
  assumes "0 < a" "a \<le> b"
  shows "flog2 a \<le> flog2 b"
proof -
  have "0 < b" using assms by simp
  have "(2::rat) powi flog2 a < 2 powi (flog2 b + 1)"
    using flog2_bounds [OF assms(1)] flog2_bounds [OF \<open>0 < b\<close>] assms(2) by linarith
  then have "flog2 a < flog2 b + 1" by (rule pow2_less_imp)
  then show ?thesis by simp
qed

lemma pow2_int_multiple:
  assumes "j \<le> k"
  shows "\<exists>m::int. (2::rat) powi k / 2 powi j = of_int m"
proof -
  have "(2::rat) powi k / 2 powi j = 2 powi (k - j)" by (simp add: power_int_diff)
  also have "\<dots> = of_int (2 ^ nat (k - j))" using assms by (simp add: power_int_def)
  finally show ?thesis by blast
qed

lemma rnd_val_mono:
  assumes "0 < a" "a \<le> b"
  shows "rnd_val a \<le> rnd_val b"
proof -
  have bpos: "0 < b" using assms by simp
  define ea where "ea = max (flog2 a) (- 1022)"
  define eb where "eb = max (flog2 b) (- 1022)"
  have ua: "ulp a = 2 powi (ea - 52)" using assms(1) by (simp add: ulp_def ea_def)
  have ub: "ulp b = 2 powi (eb - 52)" using bpos by (simp add: ulp_def eb_def)
  have le: "ea \<le> eb" using flog2_mono [OF assms] by (simp add: ea_def eb_def)
  show ?thesis
  proof (cases "ea = eb")
    case True
    then have "ulp a = ulp b" by (simp add: ua ub)
    moreover have "a / ulp b \<le> b / ulp b"
      using assms(2) ulp_pos [of b] by (simp add: divide_right_mono)
    ultimately show ?thesis
      using round_even_mono [of "a / ulp b" "b / ulp b"] ulp_pos [of b]
      by (simp add: rnd_val_def mult_right_mono)
  next
    case False
    then have lt: "ea < eb" using le by simp
    then have eb: "eb = flog2 b" "flog2 a < eb" by (auto simp: ea_def eb_def)
    have mid: "a \<le> 2 powi eb" "2 powi eb \<le> b"
    proof -
      have "a < 2 powi (flog2 a + 1)" using flog2_bounds [OF assms(1)] by simp
      also have "\<dots> \<le> 2 powi eb" using eb(2) by (intro power_int_increasing) simp_all
      finally show "a \<le> 2 powi eb" by simp
      show "2 powi eb \<le> b" using flog2_bounds [OF bpos] by (simp add: eb(1))
    qed
    obtain m where m: "(2::rat) powi eb / ulp a = of_int m"
      using pow2_int_multiple [of "ea - 52" eb] lt by (auto simp: ua)
    have "a / ulp a \<le> of_int m"
      using mid(1) ulp_pos [of a] by (simp add: m [symmetric] divide_right_mono)
    then have "round_even (a / ulp a) \<le> m"
      using round_even_mono [of "a / ulp a" "of_int m"] by (simp add: round_even_of_int)
    then have "rnd_val a \<le> of_int m * ulp a"
      using ulp_pos [of a] by (simp add: rnd_val_def mult_right_mono)
    also have "\<dots> = 2 powi eb" using ulp_pos [of a] by (simp add: m [symmetric])
    finally have A: "rnd_val a \<le> 2 powi eb" .
    obtain n where n: "(2::rat) powi eb / ulp b = of_int n"
      using pow2_int_multiple [of "eb - 52" eb] by (auto simp: ub)
    have "of_int n \<le> b / ulp b"
      using mid(2) ulp_pos [of b] by (simp add: n [symmetric] divide_right_mono)
    then have "n \<le> round_even (b / ulp b)"
      using round_even_mono [of "of_int n" "b / ulp b"] by (simp add: round_even_of_int)
    then have "of_int n * ulp b \<le> rnd_val b"
      using ulp_pos [of b] by (simp add: rnd_val_def mult_right_mono)
    moreover have "of_int n * ulp b = 2 powi eb" using ulp_pos [of b] by (simp add: n [symmetric])
    ultimately have B: "2 powi eb \<le> rnd_val b" by simp
    show ?thesis using A B by linarith
  qed
qed

lemma rnd_cases:
  "rnd q = (if q = 0 then Fin 0 else if binary64_limit \<le> rnd_val q then PInf
            else if rnd_val q \<le> - binary64_limit then NInf else Fin (rnd_val q))"
  by (simp add: rnd_def Let_def)

lemma rnd_val_nonneg: "0 \<le> q \<Longrightarrow> 0 \<le> rnd_val q"
  using round_even_nonneg [of "q / ulp q"] ulp_pos [of q] by (simp add: rnd_val_def)

lemma rnd_mono:
  assumes "0 \<le> a" "a \<le> b"
  shows "num_le (rnd a) (rnd b)"
proof -
  have lim: "0 < binary64_limit" by (simp add: binary64_limit_def)
  show ?thesis
  proof (cases "a = 0")
    case True
    then show ?thesis
      using rnd_val_nonneg [of b] assms lim by (simp add: rnd_cases)
  next
    case False
    then have "0 < a" using assms(1) by simp
    then show ?thesis
      using rnd_val_mono [OF _ assms(2)] rnd_val_nonneg [of a] rnd_val_nonneg [of b] assms lim
      by (simp add: rnd_cases)
  qed
qed

text \<open>Values that are binary64 numbers round to themselves.\<close>

lemma rnd_50: "rnd 50 = Fin 50"
  by code_simp

lemma rnd_1: "rnd 1 = Fin 1"
  by code_simp

lemma rnd_half: "rnd (1 / 2) = Fin (1 / 2)"
  by code_simp

lemma rnd_eighth: "rnd (1 / 8) = Fin (1 / 8)"
  by code_simp

lemma rnd_100: "rnd 100 = Fin 100"
  by code_simp

lemma rnd_0: "rnd 0 = Fin 0"
  by (simp add: rnd_def)

text \<open>The rounding at work: in binary64, \<open>0.1 + 0.2\<close> is \<open>0.30000000000000004\<close>, not
  \<open>0.3\<close>, and \<open>0.1 * 3\<close> is the same Number.\<close>

lemma binary64_sum_example:
  "num_add (rnd (1 / 10)) (rnd (2 / 10)) = Fin (1351079888211149 / 4503599627370496) \<and>
   rnd (3 / 10) = Fin (5404319552844595 / 18014398509481984) \<and>
   num_mul (rnd (1 / 10)) (Fin 3) = Fin (1351079888211149 / 4503599627370496)"
  by code_simp

section \<open>The style as the element reads it back\<close>

text \<open>The decimal exponent is the one of the number, and the decimal of 6 significant
  digits is within half a unit of the sixth digit.\<close>

lemma declen_bounds:
  assumes "0 < a"
  shows "1 \<le> declen a \<and> 10 ^ nat (declen a - 1) \<le> a \<and> a < 10 ^ nat (declen a)"
proof -
  define n where "n = floorlog 10 (nat a)"
  have pos: "0 < nat a" using assms by simp
  have b: "10 ^ (n - 1) \<le> nat a" "nat a < 10 ^ n"
    using floorlog_bounds [OF pos, of 10] by (simp_all add: n_def)
  have n1: "1 \<le> n" using pos by (simp add: n_def floorlog_def)
  have "int (10 ^ (n - 1)) \<le> int (nat a)" using b(1) by (simp only: of_nat_le_iff)
  then have lo: "10 ^ (n - 1) \<le> a" using assms by simp
  have "int (nat a) < int (10 ^ n)" using b(2) by (simp only: of_nat_less_iff)
  then have hi: "a < 10 ^ n" using assms by simp
  have "nat (int n - 1) = n - 1" by simp
  then show ?thesis using lo hi n1 by (simp add: declen_def n_def [symmetric])
qed

lemma pow10_less_imp: "(10::rat) powi m < 10 powi n \<Longrightarrow> m < n"
  using power_int_increasing [of n m "10::rat"] by (cases "m < n") auto

lemma pow10_le_imp: "(10::rat) powi m \<le> 10 powi n \<Longrightarrow> m \<le> n"
  using power_int_strict_increasing [of n m "10::rat"] by (cases "m \<le> n") auto

lemma flog10_bounds:
  assumes "0 < q"
  shows "10 powi (flog10 q) \<le> q \<and> q < 10 powi (flog10 q + 1)"
proof -
  obtain a b where ab: "quotient_of q = (a, b)" by (cases "quotient_of q")
  have bpos: "0 < b" using ab by (rule quotient_of_denom_pos)
  have q: "q = of_int a / of_int b" using ab by (rule quotient_of_div)
  have apos: "0 < a" using assms bpos q by (simp add: zero_less_divide_iff)
  define la where "la = declen a"
  define lb where "lb = declen b"
  have la: "10 ^ nat (la - 1) \<le> a" "a < 10 ^ nat la" and la1: "1 \<le> la"
    using declen_bounds [OF apos] by (auto simp: la_def)
  have lb: "10 ^ nat (lb - 1) \<le> b" "b < 10 ^ nat lb" and lb1: "1 \<le> lb"
    using declen_bounds [OF bpos] by (auto simp: lb_def)
  have A1: "(10::rat) powi (la - 1) \<le> of_int a"
  proof -
    have "(of_int (10 ^ nat (la - 1)) :: rat) \<le> of_int a" using la(1) by (simp only: of_int_le_iff)
    then show ?thesis using la1 by (simp add: power_int_def)
  qed
  have A2: "of_int a < (10::rat) powi la"
  proof -
    have "(of_int a :: rat) < of_int (10 ^ nat la)" using la(2) by (simp only: of_int_less_iff)
    then show ?thesis using la1 by (simp add: power_int_def)
  qed
  have B1: "(10::rat) powi (lb - 1) \<le> of_int b"
  proof -
    have "(of_int (10 ^ nat (lb - 1)) :: rat) \<le> of_int b" using lb(1) by (simp only: of_int_le_iff)
    then show ?thesis using lb1 by (simp add: power_int_def)
  qed
  have B2: "of_int b < (10::rat) powi lb"
  proof -
    have "(of_int b :: rat) < of_int (10 ^ nat lb)" using lb(2) by (simp only: of_int_less_iff)
    then show ?thesis using lb1 by (simp add: power_int_def)
  qed
  have bq: "(0::rat) < of_int b" using bpos by simp
  have lo: "(10::rat) powi (la - lb - 1) \<le> q"
  proof -
    have "(10::rat) powi (la - lb - 1) * of_int b \<le> 10 powi (la - lb - 1) * 10 powi lb"
      using B2 by (intro mult_left_mono) auto
    also have "\<dots> = 10 powi (la - 1)" by (simp add: power_int_add [symmetric])
    also have "\<dots> \<le> of_int a" by (rule A1)
    finally show ?thesis using bq by (simp add: q pos_le_divide_eq)
  qed
  have hi: "q < (10::rat) powi (la - lb + 1)"
  proof -
    have "of_int a < (10::rat) powi la" by (rule A2)
    also have "\<dots> = 10 powi (la - lb + 1) * 10 powi (lb - 1)" by (simp add: power_int_add [symmetric])
    also have "\<dots> \<le> 10 powi (la - lb + 1) * of_int b"
      using B1 by (intro mult_left_mono) auto
    finally show ?thesis using bq by (simp add: q pos_divide_less_eq)
  qed
  have split: "(10::rat) powi (la - lb) = 10 * 10 powi (la - lb - 1)"
    "(10::rat) powi (la - lb + 1) = 10 * 10 powi (la - lb)"
    by (simp_all add: power_int_add power_int_diff)
  show ?thesis
    using lo hi by (auto simp: flog10_def ab la_def [symmetric] lb_def [symmetric] Let_def split)
qed

lemma dec_unit_pos: "0 < dec_unit q"
  by (simp add: dec_unit_def)

lemma dec6_pos:
  assumes "0 < q"
  shows "dec6 q = of_int \<lfloor>q / dec_unit q + 1 / 2\<rfloor> * dec_unit q"
  using assms by (simp add: dec6_def dec_unit_def Let_def)

lemma dec6_err:
  assumes "0 < q"
  shows "\<bar>dec6 q - q\<bar> \<le> dec_unit q / 2"
proof -
  define s where "s = dec_unit q"
  have s: "0 < s" by (simp add: s_def dec_unit_pos)
  define m where "m = \<lfloor>q / s + 1 / 2\<rfloor>"
  have "of_int m \<le> q / s + 1 / 2" "q / s + 1 / 2 < of_int m + 1" unfolding m_def by linarith+
  then have "\<bar>of_int m - q / s\<bar> \<le> 1 / 2" by linarith
  then have "\<bar>of_int m - q / s\<bar> * s \<le> 1 / 2 * s" using s by (intro mult_right_mono) auto
  moreover have "dec6 q - q = (of_int m - q / s) * s"
    using s by (simp add: dec6_pos [OF assms] s_def [symmetric] m_def left_diff_distrib)
  ultimately show ?thesis using s by (simp add: abs_mult s_def)
qed

lemma dec_unit_le:
  assumes "0 < q" "q < 10 powi k"
  shows "dec_unit q \<le> 10 powi (k - 6)"
proof -
  have "(10::rat) powi flog10 q < 10 powi k"
    using flog10_bounds [OF assms(1)] assms(2) by linarith
  then have "flog10 q < k" by (rule pow10_less_imp)
  then have "flog10 q - 5 \<le> k - 6" by simp
  then show ?thesis using assms(1) by (simp add: dec_unit_def power_int_increasing)
qed

lemma dec6_range:
  assumes "0 \<le> q" "q \<le> 100"
  shows "0 \<le> dec6 q \<and> dec6 q \<le> 100"
proof (cases "q = 0")
  case True
  then show ?thesis by (simp add: dec6_def)
next
  case False
  then have qpos: "0 < q" using assms(1) by simp
  define s where "s = dec_unit q"
  have s: "0 < s" by (simp add: s_def dec_unit_pos)
  have "(10::rat) powi flog10 q \<le> 10 powi 2"
    using flog10_bounds [OF qpos] assms(2) by simp
  then have e2: "flog10 q \<le> 2" by (rule pow10_le_imp)
  define M :: int where "M = 10 ^ nat (7 - flog10 q)"
  have "100 / s = 100 / (10::rat) powi (flog10 q - 5)"
    using qpos by (simp add: s_def dec_unit_def)
  also have "\<dots> = 10 powi (7 - flog10 q)"
    using power_int_diff [of "10::rat" 2 "flog10 q - 5"] by simp
  also have "\<dots> = of_int M" using e2 by (simp add: power_int_def M_def)
  finally have M: "100 / s = of_int M" .
  define m where "m = \<lfloor>q / s + 1 / 2\<rfloor>"
  have "q / s \<le> 100 / s" using assms(2) s by (simp add: divide_right_mono)
  then have "q / s + 1 / 2 < of_int (M + 1)" using M by simp
  then have "m < M + 1" unfolding m_def by (simp only: floor_less_iff)
  then have mM: "m \<le> M" by simp
  have "0 \<le> q / s + 1 / 2" using qpos s by simp
  then have m0: "0 \<le> m" unfolding m_def by simp
  have d: "dec6 q = of_int m * s" by (simp add: dec6_pos [OF qpos] s_def m_def)
  have "of_int m * s \<le> of_int M * s" using mM s by (intro mult_right_mono) auto
  also have "\<dots> = 100" using M s by (simp add: field_simps)
  finally have "dec6 q \<le> 100" by (simp add: d)
  moreover have "0 \<le> dec6 q" using m0 s by (simp add: d)
  ultimately show ?thesis by simp
qed

text \<open>A percentage in [0, 100] reads back as a Number in [0, 100].\<close>

lemma serialized_range:
  assumes "0 \<le> q" "q \<le> 100"
  shows "\<exists>r. serialized (Fin q) = Fin r \<and> 0 \<le> r \<and> r \<le> 100 \<and> \<bar>r - q\<bar> \<le> 1 / 1000"
proof (cases "q = 0")
  case True
  then show ?thesis by (simp add: dec6_def rnd_0)
next
  case False
  then have qpos: "0 < q" using assms(1) by simp
  have d: "0 \<le> dec6 q" "dec6 q \<le> of_nat 100" using dec6_range [OF assms] by simp_all
  from rnd_range [OF d] obtain r where r: "rnd (dec6 q) = Fin r" "0 \<le> r" "r \<le> 100" by auto
  have "q < 10 powi 3" using assms(2) by simp
  from dec_unit_le [OF qpos this] have "dec_unit q \<le> 1 / 1000" by (simp add: power_int_minus)
  then have e1: "\<bar>dec6 q - q\<bar> \<le> 1 / 2000" using dec6_err [OF qpos] by linarith
  have e2: "\<bar>r - dec6 q\<bar> \<le> 1 / 2000"
  proof (cases "dec6 q = 0")
    case True
    then show ?thesis using r(1) by (simp add: rnd_0)
  next
    case False
    then have dp: "0 < dec6 q" using d(1) by simp
    have "dec6 q < 2 powi 7" using d(2) by simp
    from ulp_le [OF dp this] have "ulp (dec6 q) \<le> 2 powi (- 46)" by simp
    also have "\<dots> \<le> 1 / 1000" by (simp add: power_int_minus)
    finally show ?thesis using rnd_err [OF r(1)] by linarith
  qed
  have "\<bar>r - q\<bar> \<le> 1 / 1000" using e1 e2 by linarith
  then show ?thesis using r by simp
qed

text \<open>A Number close enough to a decimal of 6 significant digits reads back as that
  decimal; so does a Number close to a percentage of at most three decimals.\<close>

lemma pow10_shift: "(10::rat) powi (j + int n) = 10 ^ n * 10 powi j"
  by (simp add: power_int_add)

lemma dec6_near:
  assumes m: "10 ^ 5 \<le> m" "m < 10 ^ 6" and t: "t = of_int m * 10 powi j"
    and w: "0 < w" "\<bar>w - t\<bar> \<le> 10 powi j / 40"
  shows "dec6 w = t"
proof -
  define u :: rat where "u = 10 powi j"
  have u: "0 < u" by (simp add: u_def)
  have mr: "(100000 :: rat) \<le> of_int m" "(of_int m :: rat) \<le> 999999"
  proof -
    have "(of_int (10 ^ 5) :: rat) \<le> of_int m" using m(1) by (simp only: of_int_le_iff)
    then show "(100000 :: rat) \<le> of_int m" by simp
    have "m \<le> 999999" using m(2) by simp
    then have "(of_int m :: rat) \<le> of_int 999999" by (simp only: of_int_le_iff)
    then show "(of_int m :: rat) \<le> 999999" by simp
  qed
  define x where "x = w / u"
  have wx: "w = x * u" using u by (simp add: x_def)
  have "\<bar>w - t\<bar> = \<bar>x - of_int m\<bar> * u"
    using u by (simp add: wx t u_def [symmetric] left_diff_distrib [symmetric] abs_mult)
  then have "\<bar>x - of_int m\<bar> * u \<le> (1 / 40) * u" using w(2) by (simp add: u_def)
  then have xm: "\<bar>x - of_int m\<bar> \<le> 1 / 40" using u by (simp only: mult_le_cancel_right_pos)
  have xlo: "10000 \<le> x" and xhi: "x < 1000000" using xm mr by linarith+
  have p4: "(10::rat) powi (j + 4) = 10000 * u" and p5: "(10::rat) powi (j + 5) = 100000 * u"
    and p6: "(10::rat) powi (j + 6) = 1000000 * u"
    using pow10_shift [of j 4] pow10_shift [of j 5] pow10_shift [of j 6] by (simp_all add: u_def)
  define e where "e = flog10 w"
  have fb: "10 powi e \<le> w" "w < 10 powi (e + 1)" using flog10_bounds [OF w(1)] by (simp_all add: e_def)
  have "w < 10 powi (j + 6)" using xhi u by (simp add: p6 wx)
  then have "(10::rat) powi e < 10 powi (j + 6)" using fb(1) by linarith
  then have e_hi: "e < j + 6" by (rule pow10_less_imp)
  have "10 powi (j + 4) \<le> w" using xlo u by (simp add: p4 wx)
  then have "(10::rat) powi (j + 4) < 10 powi (e + 1)" using fb(2) by linarith
  then have e_lo: "j + 4 < e + 1" by (rule pow10_less_imp)
  have du: "dec_unit w = 10 powi (e - 5)" using w(1) by (simp add: dec_unit_def e_def)
  consider "e = j + 5" | "e = j + 4" using e_hi e_lo by linarith
  then show ?thesis
  proof cases
    case 1
    then have s: "dec_unit w = u" by (simp add: du u_def)
    have "of_int m \<le> x + 1 / 2" "x + 1 / 2 < of_int m + 1" using xm by linarith+
    then have "\<lfloor>x + 1 / 2\<rfloor> = m" by (simp add: floor_unique)
    then show ?thesis by (simp add: dec6_pos [OF w(1)] s x_def [symmetric] t u_def [symmetric])
  next
    case 2
    then have "dec_unit w = 10 powi (j - 1)" by (simp add: du)
    also have "\<dots> = u / 10" by (simp add: power_int_diff u_def)
    finally have s: "dec_unit w = u / 10" .
    have "w < 10 powi (j + 5)" using fb(2) 2 by (simp add: add.commute)
    then have "w < 100000 * u" by (simp only: p5)
    then have x5: "x < 100000" using u by (simp add: wx)
    then have "(of_int m :: rat) < 100001" using xm by linarith
    then have "(of_int m :: rat) < of_int 100001" by simp
    then have "m < 100001" by (simp only: of_int_less_iff)
    then have m5: "m = 100000" using m(1) by simp
    have xm': "\<bar>x - 100000\<bar> \<le> 1 / 40" using xm by (simp add: m5)
    have "w / (u / 10) = 10 * x" using u by (simp add: x_def)
    moreover have "of_int 1000000 \<le> 10 * x + 1 / 2" "10 * x + 1 / 2 < of_int 1000000 + 1"
      using xm' x5 by (simp; linarith)+
    then have "\<lfloor>10 * x + 1 / 2\<rfloor> = 1000000" by (rule floor_unique)
    ultimately show ?thesis
      using u by (simp add: dec6_pos [OF w(1)] s t u_def [symmetric] m5)
  qed
qed

lemma dec6_three_decimals:
  assumes k: "0 < k" "k < 100000" and w: "0 < w" "\<bar>w - of_int k / 1000\<bar> \<le> 1 / 10 ^ 11"
  shows "dec6 w = of_int k / 1000"
proof -
  have step: "dec6 w = of_int k / 1000"
    if c: "c \<le> 5" and lo: "10 ^ 5 \<le> k * 10 ^ c" and hi: "k * 10 ^ c < 10 ^ 6" for c :: nat
  proof -
    have "(10::rat) powi (- 3 - int c) = 1 / (1000 * 10 ^ c)"
      by (simp add: power_int_def nat_add_distrib power_add field_simps)
    then have t: "(of_int k :: rat) / 1000 = of_int (k * 10 ^ c) * 10 powi (- 3 - int c)"
      by simp
    have "(1::rat) / 10 ^ 11 \<le> 10 powi (- 8) / 40" by (simp add: power_int_minus)
    also have "\<dots> \<le> 10 powi (- 3 - int c) / 40"
      using c by (intro divide_right_mono power_int_increasing) simp_all
    finally have "\<bar>w - of_int k / 1000\<bar> \<le> 10 powi (- 3 - int c) / 40" using w(2) by linarith
    from dec6_near [OF lo hi t w(1) this] show ?thesis .
  qed
  consider "k < 10" | "10 \<le> k" "k < 100" | "100 \<le> k" "k < 1000"
    | "1000 \<le> k" "k < 10000" | "10000 \<le> k" using k by linarith
  then show ?thesis
  proof cases
    case 1
    then show ?thesis using k step [of 5] by simp
  next
    case 2
    then show ?thesis using step [of 4] by simp
  next
    case 3
    then show ?thesis using step [of 3] by simp
  next
    case 4
    then show ?thesis using step [of 2] by simp
  next
    case 5
    then show ?thesis using k step [of 1] by simp
  qed
qed

lemma serialized_100: "serialized (Fin 100) = Fin 100"
  by code_simp

lemma serialized_0: "serialized (Fin 0) = Fin 0"
  by (simp add: dec6_def rnd_0)

lemma serialized_50: "serialized (Fin 50) = Fin 50"
  by code_simp

text \<open>A persisted value of at most 5 decimals renders as the percentage of at most 3
  decimals it denotes, and that percentage commits the persisted value again.\<close>

lemma persisted_renders:
  assumes "0 \<le> k" "k \<le> 100000"
  shows "serialized (initial_percent (Some (rnd (of_int k / 100000)))) = rnd (of_int k / 1000)"
proof -
  consider "k = 0" | "k = 100000" | "0 < k" "k < 100000" using assms by linarith
  then show ?thesis
  proof cases
    case 1
    then show ?thesis by (simp add: rnd_0 initial_percent_def dec6_def)
  next
    case 2
    then show ?thesis using serialized_100 by (simp add: rnd_1 initial_percent_def rnd_100)
  next
    case 3
    define e2 :: rat where "e2 = 1 / 2 ^ 53"
    define e3 :: rat where "e3 = 1 / 2 ^ 47"
    have small: "e2 \<le> 1 / 1000000000000000" "e3 \<le> 1 / 100000000000000" "0 \<le> e2"
      by (simp_all add: e2_def e3_def)
    have kr: "(1::rat) \<le> of_int k" "(of_int k :: rat) \<le> 99999"
    proof -
      have "1 \<le> k" "k \<le> 99999" using 3 by simp_all
      then have "(of_int 1 :: rat) \<le> of_int k" "(of_int k :: rat) \<le> of_int 99999"
        by (simp_all only: of_int_le_iff)
      then show "(1::rat) \<le> of_int k" "(of_int k :: rat) \<le> 99999" by simp_all
    qed
    have "(0::rat) \<le> of_int k / 100000" "(of_int k :: rat) / 100000 \<le> of_nat 1"
      using kr by simp_all
    from rnd_range [OF this] obtain r0 where r0: "rnd (of_int k / 100000) = Fin r0" by auto
    have pos: "(0::rat) < of_int k / 100000" using kr by simp
    have "(of_int k :: rat) / 100000 < 2 powi 1" using kr by simp
    from ulp_le [OF pos this] have "ulp (of_int k / 100000) \<le> 2 powi (- 52)" by simp
    then have "ulp (of_int k / 100000) / 2 \<le> e2" by (simp add: power_int_minus field_simps e2_def)
    then have err0: "\<bar>r0 - of_int k / 100000\<bar> \<le> e2" using rnd_err [OF r0] by linarith
    have r0b: "0 < r0" "r0 < 1" using err0 kr small by linarith+
    have ip: "initial_percent (Some (Fin r0)) = rnd (r0 * 100)"
      using r0b by (simp add: initial_percent_def)
    have "0 \<le> r0 * 100" "r0 * 100 \<le> of_nat 100" using r0b by simp_all
    from rnd_range [OF this] obtain w where w: "rnd (r0 * 100) = Fin w" by auto
    have p: "0 < r0 * 100" using r0b by simp
    have "r0 * 100 < 2 powi 7" using r0b by simp
    from ulp_le [OF p this] have "ulp (r0 * 100) \<le> 2 powi (- 46)" by simp
    then have "ulp (r0 * 100) / 2 \<le> e3" by (simp add: power_int_minus field_simps e3_def)
    then have err1: "\<bar>w - r0 * 100\<bar> \<le> e3" using rnd_err [OF w] by linarith
    have near0: "\<bar>w - of_int k / 1000\<bar> \<le> 1 / 100000000000" using err0 err1 small by linarith
    then have near: "\<bar>w - of_int k / 1000\<bar> \<le> 1 / 10 ^ 11" by simp
    have wpos: "0 < w" using near0 kr by linarith
    have d: "dec6 w = of_int k / 1000" using 3 wpos near by (rule dec6_three_decimals)
    have "serialized (initial_percent (Some (rnd (of_int k / 100000)))) = serialized (Fin w)"
      by (simp only: r0 ip w)
    also have "\<dots> = rnd (of_int k / 1000)" by (simp only: serialized.simps d)
    finally show ?thesis .
  qed
qed

lemma normalized_0: "normalized (Fin 0) = Fin 0"
  by code_simp

lemma displayed_commits:
  assumes "0 \<le> k" "k \<le> 100000"
  shows "normalized (rnd (of_int k / 1000)) = rnd (of_int k / 100000)"
proof (cases "k = 0")
  case True
  then show ?thesis by (simp add: rnd_0 normalized_0)
next
  case False
  define e1 :: rat where "e1 = 1 / 2 ^ 37"
  define e3 :: rat where "e3 = 1 / 2 ^ 47"
  have small: "e1 \<le> 1 / 100000000000" "e3 \<le> 1 / 100000000000000"
    by (simp_all add: e1_def e3_def)
  have kr: "(1::rat) \<le> of_int k" "(of_int k :: rat) \<le> 100000"
  proof -
    have "1 \<le> k" using False assms by simp
    then have "(of_int 1 :: rat) \<le> of_int k" "(of_int k :: rat) \<le> of_int 100000"
      using assms(2) by (simp_all only: of_int_le_iff)
    then show "(1::rat) \<le> of_int k" "(of_int k :: rat) \<le> 100000" by simp_all
  qed
  have "(0::rat) \<le> of_int k / 1000" "(of_int k :: rat) / 1000 \<le> of_nat 100" using kr by simp_all
  from rnd_range [OF this] obtain w where w: "rnd (of_int k / 1000) = Fin w" "0 \<le> w" "w \<le> 100"
    by auto
  have pos: "(0::rat) < of_int k / 1000" using kr by simp
  have "(of_int k :: rat) / 1000 < 2 powi 7" using kr by simp
  from ulp_le [OF pos this] have "ulp (of_int k / 1000) \<le> 2 powi (- 46)" by simp
  then have "ulp (of_int k / 1000) / 2 \<le> e3" by (simp add: power_int_minus field_simps e3_def)
  then have err0: "\<bar>w - of_int k / 1000\<bar> \<le> e3" using rnd_err [OF w(1)] by linarith
  have wpos: "0 < w" using err0 kr small by linarith
  have "0 \<le> w * 1000" "w * 1000 \<le> of_nat 100000" using w by simp_all
  from rnd_range [OF this] obtain r1 where r1: "rnd (w * 1000) = Fin r1" by auto
  have p: "0 < w * 1000" using wpos by simp
  have "w * 1000 < 2 powi 17" using w(3) by simp
  from ulp_le [OF p this] have "ulp (w * 1000) \<le> 2 powi (- 36)" by simp
  then have "ulp (w * 1000) / 2 \<le> e1" by (simp add: power_int_minus field_simps e1_def)
  then have err1: "\<bar>r1 - w * 1000\<bar> \<le> e1" using rnd_err [OF r1] by linarith
  have "of_int k \<le> r1 + 1 / 2" "r1 + 1 / 2 < of_int k + 1" using err0 err1 small by linarith+
  then have "\<lfloor>r1 + 1 / 2\<rfloor> = k" by (rule floor_unique)
  then show ?thesis by (simp add: w(1) normalized_def r1)
qed

text \<open>What the style holds reads back as itself: serialising a percentage twice is
  serialising it once (shown for percentages from \<open>1 / 10 ^ 300\<close>, where binary64 has its
  full 53 bits).\<close>

lemma ulp_rel:
  assumes "2 powi (- 1022) \<le> x"
  shows "ulp x \<le> x * 2 powi (- 52)"
proof -
  have "(0::rat) < 2 powi (- 1022)" by simp
  then have pos: "0 < x" using assms by linarith
  have fb: "2 powi (flog2 x) \<le> x" "x < 2 powi (flog2 x + 1)"
    using flog2_bounds [OF pos] by simp_all
  have "(2::rat) powi (- 1022) < 2 powi (flog2 x + 1)" using assms fb(2) by linarith
  then have "- 1022 < flog2 x + 1" by (rule pow2_less_imp)
  then have "max (flog2 x) (- 1022) = flog2 x" by simp
  then have "ulp x = 2 powi (flog2 x - 52)" using pos by (simp add: ulp_def)
  also have "\<dots> = 2 powi (flog2 x) * 2 powi (- 52)"
    using power_int_add [of "2::rat" "flog2 x" "- 52"] by simp
  also have "\<dots> \<le> x * 2 powi (- 52)" using fb(1) by (intro mult_right_mono) simp_all
  finally show ?thesis .
qed

lemma serialized_idem:
  assumes "q = 0 \<or> 1 / 10 ^ 300 \<le> q" "q \<le> 100"
  shows "serialized (serialized (Fin q)) = serialized (Fin q)"
proof (cases "q = 0")
  case True
  then show ?thesis by (simp add: dec6_def rnd_0)
next
  case False
  then have low: "1 / 10 ^ 300 \<le> q" using assms(1) by simp
  have "(0::rat) < 1 / 10 ^ 300" by simp
  then have qpos: "0 < q" using low by linarith
  define e where "e = flog10 q"
  define u :: rat where "u = 10 powi (e - 5)"
  have u: "0 < u" by (simp add: u_def)
  have du: "dec_unit q = u" using qpos by (simp add: dec_unit_def u_def e_def)
  have fb: "10 powi e \<le> q" "q < 10 powi (e + 1)"
    using flog10_bounds [OF qpos] by (simp_all add: e_def)
  have p5: "(10::rat) powi e = 100000 * u"
    using pow10_shift [of "e - 5" 5] by (simp add: u_def)
  have "(10::rat) powi (e + 1) = 10 powi (e - 5 + int 6)"
    by (rule arg_cong [where f = "\<lambda>k. 10 powi k"]) simp
  also have "\<dots> = 10 ^ 6 * 10 powi (e - 5)" by (rule pow10_shift)
  finally have p6: "(10::rat) powi (e + 1) = 1000000 * u" by (simp add: u_def)
  define x where "x = q / u"
  have qx: "q = x * u" using u by (simp add: x_def)
  have "100000 * u \<le> x * u" "x * u < 1000000 * u" using fb by (simp_all add: p5 p6 qx)
  then have xb: "100000 \<le> x" "x < 1000000" using u by simp_all
  define m where "m = \<lfloor>x + 1 / 2\<rfloor>"
  have "of_int 100000 \<le> x + 1 / 2" using xb(1) by simp
  then have m_lo: "100000 \<le> m" unfolding m_def by (simp only: le_floor_iff)
  have "x + 1 / 2 < of_int 1000001" using xb(2) by simp
  then have "m < 1000001" unfolding m_def by (simp only: floor_less_iff)
  then have m_hi: "m \<le> 1000000" by simp
  define t where "t = dec6 q"
  have t: "t = of_int m * u" by (simp add: t_def dec6_pos [OF qpos] du x_def m_def)
  have mr: "(100000::rat) \<le> of_int m" "(of_int m :: rat) \<le> 1000000"
  proof -
    have "(of_int 100000 :: rat) \<le> of_int m" "(of_int m :: rat) \<le> of_int 1000000"
      using m_lo m_hi by (simp_all only: of_int_le_iff)
    then show "(100000::rat) \<le> of_int m" "(of_int m :: rat) \<le> 1000000" by simp_all
  qed
  have t_lo: "100000 * u \<le> t" and t_hi: "t \<le> 1000000 * u"
    using mr u by (simp_all add: t)
  have t100: "0 \<le> t" "t \<le> of_nat 100" using dec6_range [OF _ assms(2)] qpos by (simp_all add: t_def)
  from rnd_range [OF t100] obtain w where w: "rnd t = Fin w" by auto
  have "q < 10 * (100000 * u)" using fb(2) by (simp add: p6)
  then have "q / 10 < t" using t_lo by linarith
  then have "1 / 10 ^ 301 < t" using low by simp
  moreover have "(2::rat) powi (- 1022) \<le> 1 / 10 ^ 301" by (simp add: power_int_minus field_simps)
  ultimately have "2 powi (- 1022) \<le> t" by linarith
  from ulp_rel [OF this] have "ulp t \<le> t * 2 powi (- 52)" .
  also have "\<dots> \<le> (1000000 * u) * 2 powi (- 52)" using t_hi by (intro mult_right_mono) simp_all
  also have "\<dots> \<le> u / 20" using u by (simp add: power_int_minus field_simps)
  finally have "ulp t / 2 \<le> u / 40" by simp
  then have err: "\<bar>w - t\<bar> \<le> u / 40" using rnd_err [OF w] by linarith
  have wpos: "0 < w" using err t_lo u by linarith
  have "dec6 w = t"
  proof (cases "m = 1000000")
    case False
    then have "m < 10 ^ 6" "10 ^ 5 \<le> m" using m_hi m_lo by simp_all
    then show ?thesis using t wpos err unfolding u_def by (intro dec6_near [of m]) simp_all
  next
    case True
    have "(10::rat) powi (e - 4) = 10 * u" using pow10_shift [of "e - 5" 1] by (simp add: u_def)
    then have t': "t = of_int 100000 * 10 powi (e - 4)" by (simp add: t True)
    have "\<bar>w - t\<bar> \<le> 10 powi (e - 4) / 40"
      using err u \<open>(10::rat) powi (e - 4) = 10 * u\<close> by linarith
    then show ?thesis using t' wpos by (intro dec6_near [of 100000 _ "e - 4"]) simp_all
  qed
  then have "serialized (Fin w) = Fin w" by (simp add: w)
  then show ?thesis by (simp add: t_def [symmetric] w)
qed

section \<open>The handlers, case by case\<close>

lemma start_accepted:
  assumes "getMousePos e = Inr (px, py)" "isModPressed e m \<or> \<not> instanceof_MouseEvent e"
  shows "handleDragStart e d m =
    Inr (d\<lparr>x_last := Some px, y_last := Some py, isDragging := True,
           vertical := axis_lock (target (ui e))\<rparr>)"
  using assms by (auto simp: handleDragStart_def)

lemma move_active:
  assumes "isDragging d" "getMousePos e = Inr (px, py)"
  shows "handleDragMove e d pos =
    Inr (d\<lparr>x_last := Some px, y_last := Some py\<rparr>,
         if vertical d
         then set_objectPosition pos (fst pos) (clamp (num_add (snd pos)
                 (delta_percent (y_last d) py (clientHeight (target (ui e))))) (Fin 0) (Fin 100))
         else set_objectPosition pos (clamp (num_add (fst pos)
                 (delta_percent (x_last d) px (clientWidth (target (ui e))))) (Fin 0) (Fin 100)) (snd pos))"
  using assms by (simp add: handleDragMove_def Let_def)

lemma end_active:
  assumes "isDragging d"
  shows "handleDragEnd pos p d =
    (d\<lparr>isDragging := False\<rparr>,
     Some (p, if vertical d then \<lparr>x_field = None, y_field = Some (normalized (snd pos))\<rparr>
              else \<lparr>x_field = Some (normalized (fst pos)), y_field = None\<rparr>))"
  using assms by (simp add: handleDragEnd_def Let_def)

lemma move_keeps_flags:
  assumes "handleDragMove e d pos = Inr (d', pos')"
  shows "vertical d' = vertical d \<and> isDragging d' = isDragging d"
  using assms
  by (auto simp: handleDragMove_def Let_def split: if_splits sum.splits prod.splits)

lemma start_keeps_active:
  assumes "handleDragStart e d m = Inr d'" "isDragging d"
  shows "isDragging d'"
  using assms
  by (auto simp: handleDragStart_def split: if_splits sum.splits prod.splits)

section \<open>Dispatching events\<close>

lemma run_Nil: "run b [] = b"
  by (simp add: run_def)

lemma run_Cons: "run b (ev # evs) = run (dispatch b ev) evs"
  by (simp add: run_def)

lemma run_append: "run b (evs @ evs') = run (run b evs) evs'"
  by (simp add: run_def)

lemma dispatch_frame:
  "mouseAttached (dispatch b ev) = mouseAttached b \<and>
   touchAttached (dispatch b ev) = touchAttached b \<and>
   modRequired (dispatch b ev) = modRequired b \<and>
   path (dispatch b ev) = path b"
  by (cases ev)
    (auto simp: dispatch_def on_start_def on_move_def on_end_def split: sum.splits prod.splits)

lemma listening_dispatch: "listening (dispatch b ev) ev' = listening b ev'"
  by (cases ev') (simp_all add: dispatch_frame)

lemma listening_run: "listening (run b evs) ev = listening b ev"
  by (induction evs arbitrary: b) (simp_all add: run_Nil run_Cons listening_dispatch)

lemma path_run: "path (run b evs) = path b"
  by (induction evs arbitrary: b) (simp_all add: run_Nil run_Cons dispatch_frame)

lemma dispatch_up:
  assumes "up = MouseUp \<or> up = TouchEnd" "listening b up"
  shows "dispatch b up = on_end b"
  using assms by (auto simp: dispatch_def)

lemma dispatch_start_accepted:
  assumes "listening b (Start e)" "getMousePos e = Inr (px, py)"
    and "isModPressed e (modRequired b) \<or> \<not> instanceof_MouseEvent e"
  shows "dispatch b (Start e) =
    b\<lparr>dragData := (dragData b)\<lparr>x_last := Some px, y_last := Some py, isDragging := True,
                                 vertical := axis_lock (target (ui e))\<rparr>\<rparr>"
  using assms by (simp add: dispatch_def on_start_def start_accepted)

lemma dispatch_no_up:
  assumes "ev \<noteq> MouseUp" "ev \<noteq> TouchEnd"
  shows "upserts (dispatch b ev) = upserts b \<and>
         (isDragging (dragData b) \<longrightarrow> isDragging (dragData (dispatch b ev)))"
proof (cases ev)
  case (Start e)
  then show ?thesis
    by (auto simp: dispatch_def on_start_def split: sum.splits dest: start_keeps_active)
next
  case (Moved e)
  then show ?thesis
    by (auto simp: dispatch_def on_move_def split: sum.splits prod.splits dest: move_keeps_flags)
qed (use assms in simp_all)

lemma run_no_up:
  assumes "\<forall>ev \<in> set evs. ev \<noteq> MouseUp \<and> ev \<noteq> TouchEnd"
  shows "upserts (run b evs) = upserts b \<and>
         (isDragging (dragData b) \<longrightarrow> isDragging (dragData (run b evs)))"
  using assms
proof (induction evs arbitrary: b)
  case Nil
  then show ?case by (simp add: run_Nil)
next
  case (Cons ev evs)
  then show ?case using dispatch_no_up [of ev b] by (simp add: run_Cons)
qed

lemma dispatch_moved_lock:
  "vertical (dragData (dispatch b (Moved e))) = vertical (dragData b)"
  by (auto simp: dispatch_def on_move_def split: sum.splits prod.splits dest: move_keeps_flags)

lemma run_moved_lock:
  "vertical (dragData (run b (map Moved es))) = vertical (dragData b)"
  by (induction es arbitrary: b) (simp_all add: run_Nil run_Cons dispatch_moved_lock)

lemma on_end_active:
  assumes "isDragging (dragData b)"
  shows "on_end b =
    b\<lparr>dragData := (dragData b)\<lparr>isDragging := False\<rparr>,
      upserts := upserts b @
        [(path b, if vertical (dragData b)
                  then \<lparr>x_field = None, y_field = Some (normalized (snd (objectPosition b)))\<rparr>
                  else \<lparr>x_field = Some (normalized (fst (objectPosition b))), y_field = None\<rparr>)]\<rparr>"
  using assms by (simp add: on_end_def end_active)

lemma on_end_inactive:
  assumes "\<not> isDragging (dragData b)"
  shows "on_end b = b"
  using assms by (simp add: on_end_def handleDragEnd_def)


lemma on_end_axis_patch:
  assumes "isDragging (dragData b)"
  shows "on_end b =
    b\<lparr>dragData := (dragData b)\<lparr>isDragging := False\<rparr>,
      upserts := upserts b @
        [(path b, axis_patch (vertical (dragData b))
            (normalized (if vertical (dragData b) then snd (objectPosition b)
                         else fst (objectPosition b))))]\<rparr>"
  using assms by (simp add: on_end_active axis_patch_def)

lemma one_axis_patch: "one_axis (axis_patch v n)"
  by (simp add: one_axis_def axis_patch_def)

lemma dispatch_calls:
  "upserts (dispatch b ev) = upserts b \<or>
   (\<exists>v n. upserts (dispatch b ev) = upserts b @ [(path b, axis_patch v n)])"
proof (cases "ev \<noteq> MouseUp \<and> ev \<noteq> TouchEnd")
  case True
  then show ?thesis using dispatch_no_up [of ev b] by simp
next
  case False
  show ?thesis
  proof (cases "listening b ev \<and> isDragging (dragData b)")
    case True
    then have "dispatch b ev = on_end b" using False by (auto simp: dispatch_def)
    then show ?thesis using True by (auto simp: on_end_axis_patch)
  next
    case False
    then have "dispatch b ev = b"
      using \<open>\<not> (ev \<noteq> MouseUp \<and> ev \<noteq> TouchEnd)\<close> by (auto simp: dispatch_def on_end_inactive)
    then show ?thesis by simp
  qed
qed

lemma run_calls_one_axis:
  assumes "\<forall>c \<in> set (upserts b). one_axis (snd c)"
  shows "\<forall>c \<in> set (upserts (run b evs)). one_axis (snd c)"
  using assms
proof (induction evs arbitrary: b)
  case Nil
  then show ?case by (simp add: run_Nil)
next
  case (Cons ev evs)
  have "\<forall>c \<in> set (upserts (dispatch b ev)). one_axis (snd c)"
    using dispatch_calls [of b ev] Cons.prems by (auto simp: one_axis_patch)
  then show ?case using Cons.IH by (simp add: run_Cons)
qed

lemma gesture_state:
  assumes "listening b (Start e)" "getMousePos e = Inr (px, py)"
    and "isModPressed e (modRequired b) \<or> \<not> instanceof_MouseEvent e"
    and "\<forall>ev \<in> set evs. ev \<noteq> MouseUp \<and> ev \<noteq> TouchEnd"
  shows "isDragging (dragData (run b (Start e # evs))) \<and>
         upserts (run b (Start e # evs)) = upserts b"
proof -
  have "isDragging (dragData (dispatch b (Start e)))" "upserts (dispatch b (Start e)) = upserts b"
    using assms(1-3) by (simp_all add: dispatch_start_accepted)
  then show ?thesis using run_no_up [OF assms(4), of "dispatch b (Start e)"] by (simp add: run_Cons)
qed

lemma gesture_commit:
  assumes "listening b (Start e)" "getMousePos e = Inr (px, py)"
    and "isModPressed e (modRequired b) \<or> \<not> instanceof_MouseEvent e"
    and "\<forall>ev \<in> set evs. ev \<noteq> MouseUp \<and> ev \<noteq> TouchEnd"
    and "up = MouseUp \<or> up = TouchEnd" "listening b up"
  shows "\<exists>v n. upserts (run b (Start e # evs @ [up])) = upserts b @ [(path b, axis_patch v n)] \<and>
           \<not> isDragging (dragData (run b (Start e # evs @ [up])))"
proof -
  define b' where "b' = run b (Start e # evs)"
  have st: "isDragging (dragData b')" "upserts b' = upserts b"
    using gesture_state [OF assms(1-4)] by (simp_all add: b'_def)
  have "listening b' up" using assms(6) by (simp add: b'_def listening_run)
  then have "dispatch b' up = on_end b'" using assms(5) by (rule dispatch_up [rotated])
  moreover have "run b (Start e # evs @ [up]) = dispatch b' up"
    using run_append [of b "Start e # evs" "[up]"] by (simp add: b'_def run_Cons run_Nil)
  ultimately show ?thesis
    using st by (auto simp: on_end_axis_patch b'_def path_run)
qed


section \<open>Bounds on the committed value\<close>

lemma normalized_range:
  assumes "0 \<le> q" "q \<le> 100"
  shows "\<exists>k r. 0 \<le> k \<and> k \<le> 100000 \<and> \<bar>of_int k - 1000 * q\<bar> \<le> 1 / 2 + 1 / 2 ^ 37 \<and>
           normalized (Fin q) = rnd (of_int k / 100000) \<and>
           normalized (Fin q) = Fin r \<and> 0 \<le> r \<and> r \<le> 1"
proof -
  have "0 \<le> q * 1000" "q * 1000 \<le> of_nat 100000" using assms by simp_all
  from rnd_range [OF this] obtain r1 where
    r1: "rnd (q * 1000) = Fin r1" "0 \<le> r1" "r1 \<le> 100000" by auto
  define eps :: rat where "eps = 1 / 2 ^ 37"
  have err: "\<bar>r1 - q * 1000\<bar> \<le> eps"
  proof (cases "q = 0")
    case True
    then show ?thesis using r1(1) by (simp add: rnd_def eps_def)
  next
    case False
    then have pos: "0 < q * 1000" using assms(1) by simp
    have "q * 1000 < 2 powi 17" using assms(2) by simp
    from ulp_le [OF pos this] have "ulp (q * 1000) \<le> 2 powi (- 36)" by simp
    then have "ulp (q * 1000) / 2 \<le> eps" by (simp add: power_int_minus field_simps eps_def)
    then show ?thesis using rnd_err [OF r1(1)] by linarith
  qed
  define k where "k = \<lfloor>r1 + 1 / 2\<rfloor>"
  have k0: "0 \<le> k" using r1(2) by (simp add: k_def)
  have k1: "k \<le> 100000"
  proof -
    have "r1 + 1 / 2 < of_int (100000 + 1)" using r1(3) by simp
    then have "k < 100000 + 1" unfolding k_def by (simp only: floor_less_iff)
    then show ?thesis by simp
  qed
  have "of_int k \<le> r1 + 1 / 2" "r1 + 1 / 2 < of_int k + 1" unfolding k_def by linarith+
  then have "\<bar>of_int k - 1000 * q\<bar> \<le> 1 / 2 + eps" using err by linarith
  then have kerr: "\<bar>of_int k - 1000 * q\<bar> \<le> 1 / 2 + 1 / 2 ^ 37" by (simp only: eps_def)
  have n: "normalized (Fin q) = rnd (of_int k / 100000)"
    by (simp add: normalized_def r1(1) k_def)
  have "(0::rat) \<le> of_int k / 100000" "(of_int k :: rat) / 100000 \<le> of_nat 1"
    using k0 k1 by simp_all
  from rnd_range [OF this] obtain r where "rnd (of_int k / 100000) = Fin r" "0 \<le> r" "r \<le> 1"
    by auto
  then show ?thesis using k0 k1 kerr n by auto
qed


section \<open>The example inputs\<close>

lemma banner_ex_fields:
  "dragData banner_ex = \<lparr>x_last = None, y_last = None, isDragging = False, vertical = True\<rparr>"
  "objectPosition banner_ex = (Fin 50, Fin 50)"
  "upserts banner_ex = []"
  "mouseAttached banner_ex" "touchAttached banner_ex"
  "modRequired banner_ex = ModNone"
  "path banner_ex = ''note.md''"
  by code_simp+

lemma lock_img_v: "axis_lock img_v"
  by (simp add: axis_lock_def img_v_def num_ge_def rnd_1 rnd_half)

lemma lock_img_h: "\<not> axis_lock img_h"
  by (simp add: axis_lock_def img_h_def num_ge_def rnd_eighth rnd_half)

section \<open>The example gesture\<close>

lemma move_ex:
  "set_objectPosition (Fin 50, Fin 50) (Fin 50)
     (clamp (num_add (Fin 50) (delta_percent (Some 100) 80 200)) (Fin 0) (Fin 100)) =
   (Fin 50, Fin 60)"
  by code_simp

lemma normalized_60: "normalized (Fin 60) = rnd (6 / 10)"
  by code_simp

lemma example_run:
  assumes "getMousePos e1 = Inr (100, 100)" and "getMousePos e2 = Inr (100, 80)"
    and "isModPressed e1 (modRequired b) \<or> \<not> instanceof_MouseEvent e1"
    and "listening b (Start e1)" and "listening b (Moved e2)"
    and "up = MouseUp \<or> up = TouchEnd" and "listening b up"
    and "clientHeight (target (ui e2)) = 200" and "clientWidth (target (ui e2)) = 400"
    and "axis_lock (target (ui e1))"
    and "objectPosition b = (Fin 50, Fin 50)"
  shows "objectPosition (run b [Start e1, Moved e2]) = (Fin 50, Fin 60) \<and>
         upserts (run b [Start e1, Moved e2, up]) =
           upserts b @ [(path b, \<lparr>x_field = None, y_field = Some (rnd (6 / 10))\<rparr>)]"
proof -
  define b1 where "b1 = dispatch b (Start e1)"
  have b1: "b1 = b\<lparr>dragData := (dragData b)\<lparr>x_last := Some 100, y_last := Some 100,
                 isDragging := True, vertical := True\<rparr>\<rparr>"
    using assms(1,3,4,10) by (simp add: b1_def dispatch_start_accepted)
  define b2 where "b2 = dispatch b1 (Moved e2)"
  have l2: "listening b1 (Moved e2)" using assms(5) by (simp only: b1_def listening_dispatch)
  have b2: "b2 = b1\<lparr>dragData := (dragData b1)\<lparr>x_last := Some 100, y_last := Some 80\<rparr>,
                     objectPosition := (Fin 50, Fin 60)\<rparr>"
    using l2 assms(2,8,9,11)
    by (simp add: b2_def dispatch_def on_move_def move_active b1 move_ex)
  have l3: "listening b2 up"
    using assms(7) by (simp only: b2_def b1_def listening_dispatch)
  have b3: "upserts (dispatch b2 up) =
      upserts b @ [(path b, \<lparr>x_field = None, y_field = Some (rnd (6 / 10))\<rparr>)]"
    using l3 assms(6)
    by (simp add: dispatch_up on_end_active b2 b1 normalized_60)
  show ?thesis
    using b3 by (simp add: run_def b1_def [symmetric] b2_def [symmetric]) (simp add: b2)
qed

lemma example_run_ex:
  "objectPosition (run banner_ex [Start (MouseEvent (no_keys img_v) 100 100),
     Moved (MouseEvent (no_keys img_v) 100 80)]) = (Fin 50, Fin 60) \<and>
   upserts (run banner_ex [Start (MouseEvent (no_keys img_v) 100 100),
     Moved (MouseEvent (no_keys img_v) 100 80), MouseUp]) =
     upserts banner_ex @ [(path banner_ex, \<lparr>x_field = None, y_field = Some (rnd (6 / 10))\<rparr>)]"
  by (rule example_run)
    (simp_all add: getMousePos_def isModPressed_def banner_ex_fields no_keys_def img_v_def
      lock_img_v [unfolded img_v_def])

text \<open>
  C1. On an image rendered 400 pixels wide and 200 pixels tall, with the vertical axis
  locked and the displayed position "50% 50%": after a start at pointer position
  (100, 100) and a move to (100, 80) the displayed position is "50% 60%", and the end
  event issues one call whose patch has \<open>y\<close> equal to the Number 0.6 and no \<open>x\<close>.
\<close>

theorem gesture_example:
  assumes "getMousePos e1 = Inr (100, 100)" and "getMousePos e2 = Inr (100, 80)"
    and "isModPressed e1 (modRequired b) \<or> \<not> instanceof_MouseEvent e1"
    and "listening b (Start e1)" and "listening b (Moved e2)"
    and "up = MouseUp \<or> up = TouchEnd" and "listening b up"
    and "clientHeight (target (ui e2)) = 200" and "clientWidth (target (ui e2)) = 400"
    and "axis_lock (target (ui e1))"
    and "objectPosition b = (Fin 50, Fin 50)"
  shows "objectPosition (run b [Start e1, Moved e2]) = (Fin 50, Fin 60) \<and>
         upserts (run b [Start e1, Moved e2, up]) =
           upserts b @ [(path b, \<lparr>x_field = None, y_field = Some (rnd (6 / 10))\<rparr>)]"
  using assms by (rule example_run)

theorem gesture_example_witness:
  "getMousePos (MouseEvent (no_keys img_v) 100 100) = Inr (100, 100) \<and>
   getMousePos (MouseEvent (no_keys img_v) 100 80) = Inr (100, 80) \<and>
   isModPressed (MouseEvent (no_keys img_v) 100 100) (modRequired banner_ex) \<and>
   listening banner_ex (Start (MouseEvent (no_keys img_v) 100 100)) \<and>
   listening banner_ex (Moved (MouseEvent (no_keys img_v) 100 80)) \<and>
   listening banner_ex MouseUp \<and>
   clientHeight (target (ui (MouseEvent (no_keys img_v) 100 80))) = 200 \<and>
   clientWidth (target (ui (MouseEvent (no_keys img_v) 100 80))) = 400 \<and>
   axis_lock (target (ui (MouseEvent (no_keys img_v) 100 100))) \<and>
   objectPosition banner_ex = (Fin 50, Fin 50) \<and>
   objectPosition (run banner_ex [Start (MouseEvent (no_keys img_v) 100 100),
     Moved (MouseEvent (no_keys img_v) 100 80)]) = (Fin 50, Fin 60) \<and>
   upserts (run banner_ex [Start (MouseEvent (no_keys img_v) 100 100),
     Moved (MouseEvent (no_keys img_v) 100 80), MouseUp]) =
     upserts banner_ex @ [(path banner_ex, \<lparr>x_field = None, y_field = Some (rnd (6 / 10))\<rparr>)]"
proof -
  have h1: "getMousePos (MouseEvent (no_keys img_v) 100 100) = Inr (100, 100)"
    and h2: "getMousePos (MouseEvent (no_keys img_v) 100 80) = Inr (100, 80)"
    by (simp_all add: getMousePos_def)
  have h3: "isModPressed (MouseEvent (no_keys img_v) 100 100) (modRequired banner_ex)
      \<or> \<not> instanceof_MouseEvent (MouseEvent (no_keys img_v) 100 100)"
    by code_simp
  have h4: "listening banner_ex (Start (MouseEvent (no_keys img_v) 100 100))"
    and h5: "listening banner_ex (Moved (MouseEvent (no_keys img_v) 100 80))"
    and h7: "listening banner_ex MouseUp"
    by code_simp+
  have h6: "MouseUp = MouseUp \<or> MouseUp = TouchEnd" by simp
  have h8: "clientHeight (target (ui (MouseEvent (no_keys img_v) 100 80))) = 200"
    and h9: "clientWidth (target (ui (MouseEvent (no_keys img_v) 100 80))) = 400"
    by (simp_all add: no_keys_def img_v_def)
  have h10: "axis_lock (target (ui (MouseEvent (no_keys img_v) 100 100)))"
    by (simp add: no_keys_def lock_img_v)
  have h11: "objectPosition banner_ex = (Fin 50, Fin 50)"
    by code_simp
  note c = gesture_example [OF h1 h2 h3 h4 h5 h6 h7 h8 h9 h10 h11]
  have h3': "isModPressed (MouseEvent (no_keys img_v) 100 100) (modRequired banner_ex)"
    using h3 by simp
  show ?thesis
    using h1 h2 h3' h4 h5 h7 h8 h9 h10 h11 c by (intro conjI) simp_all
qed


section \<open>The axis lock\<close>

lemma axis_lock_exact:
  assumes "0 < naturalWidth img" "0 < clientWidth img"
    and "(of_nat (clientHeight img) :: rat) / of_nat (clientWidth img)
           \<le> of_nat (naturalHeight img) / of_nat (naturalWidth img)"
  shows "axis_lock img"
  using assms rnd_mono [OF _ assms(3)] by (simp add: axis_lock_def num_ge_def)

text \<open>
  C2. An accepted start sets the lock to vertical exactly when
  \<open>naturalHeight / naturalWidth >= clientHeight / clientWidth\<close> holds for the geometry of
  the start event, and to horizontal otherwise; no move event changes the lock, whatever
  geometry it carries. The comparison is one of binary64 quotients; in exact arithmetic,
  a natural aspect ratio that is at least the rendered one always locks the vertical
  axis.
\<close>

theorem axis_lock_fixed_for_gesture:
  assumes "listening b (Start e)" and "getMousePos e = Inr (px, py)"
    and "isModPressed e (modRequired b) \<or> \<not> instanceof_MouseEvent e"
  shows "vertical (dragData (run b (Start e # map Moved es))) =
           num_ge (num_div (Fin (of_nat (naturalHeight (target (ui e)))))
                           (Fin (of_nat (naturalWidth (target (ui e))))))
                  (num_div (Fin (of_nat (clientHeight (target (ui e)))))
                           (Fin (of_nat (clientWidth (target (ui e)))))) \<and>
         (\<forall>e' d pos d' pos'. handleDragMove e' d pos = Inr (d', pos') \<longrightarrow> vertical d' = vertical d) \<and>
         (0 < naturalWidth (target (ui e)) \<and> 0 < clientWidth (target (ui e)) \<and>
          (of_nat (clientHeight (target (ui e))) :: rat) / of_nat (clientWidth (target (ui e)))
            \<le> of_nat (naturalHeight (target (ui e))) / of_nat (naturalWidth (target (ui e))) \<longrightarrow>
          vertical (dragData (run b (Start e # map Moved es))))"
proof -
  have v: "vertical (dragData (run b (Start e # map Moved es))) = axis_lock (target (ui e))"
    using assms by (simp add: run_Cons run_moved_lock dispatch_start_accepted)
  have "vertical (dragData (run b (Start e # map Moved es))) =
           num_ge (num_div (Fin (of_nat (naturalHeight (target (ui e)))))
                           (Fin (of_nat (naturalWidth (target (ui e))))))
                  (num_div (Fin (of_nat (clientHeight (target (ui e)))))
                           (Fin (of_nat (clientWidth (target (ui e))))))"
    using v by (simp only: axis_lock_def)
  moreover have "\<forall>e' d pos d' pos'.
      handleDragMove e' d pos = Inr (d', pos') \<longrightarrow> vertical d' = vertical d"
    using move_keeps_flags by blast
  moreover have "0 < naturalWidth (target (ui e)) \<and> 0 < clientWidth (target (ui e)) \<and>
          (of_nat (clientHeight (target (ui e))) :: rat) / of_nat (clientWidth (target (ui e)))
            \<le> of_nat (naturalHeight (target (ui e))) / of_nat (naturalWidth (target (ui e))) \<longrightarrow>
          vertical (dragData (run b (Start e # map Moved es)))"
    using v axis_lock_exact by blast
  ultimately show ?thesis by (intro conjI)
qed

theorem axis_lock_fixed_for_gesture_witness:
  "listening banner_ex (Start (MouseEvent (no_keys img_v) 100 100)) \<and>
   getMousePos (MouseEvent (no_keys img_v) 100 100) = Inr (100, 100) \<and>
   isModPressed (MouseEvent (no_keys img_v) 100 100) (modRequired banner_ex) \<and>
   0 < naturalWidth (target (ui (MouseEvent (no_keys img_v) 100 100))) \<and>
   0 < clientWidth (target (ui (MouseEvent (no_keys img_v) 100 100))) \<and>
   (of_nat (clientHeight (target (ui (MouseEvent (no_keys img_v) 100 100)))) :: rat) /
       of_nat (clientWidth (target (ui (MouseEvent (no_keys img_v) 100 100))))
     \<le> of_nat (naturalHeight (target (ui (MouseEvent (no_keys img_v) 100 100)))) /
       of_nat (naturalWidth (target (ui (MouseEvent (no_keys img_v) 100 100)))) \<and>
   vertical (dragData (run banner_ex
     (Start (MouseEvent (no_keys img_v) 100 100) #
      map Moved [MouseEvent (no_keys img_h) 100 80, MouseEvent (no_keys img_flat) 90 80]))) \<and>
   handleDragMove (MouseEvent (no_keys img_h) 100 80) drag_ex (Fin 50, Fin 50) =
     Inr (drag_ex\<lparr>x_last := Some 100, y_last := Some 80\<rparr>, (Fin 50, Fin 60)) \<and>
   vertical (drag_ex\<lparr>x_last := Some 100, y_last := Some 80\<rparr>) = vertical drag_ex"
proof -
  have h1: "listening banner_ex (Start (MouseEvent (no_keys img_v) 100 100))"
    by (simp add: banner_ex_fields)
  have h2: "getMousePos (MouseEvent (no_keys img_v) 100 100) = Inr (100, 100)"
    by (simp add: getMousePos_def)
  have h3: "isModPressed (MouseEvent (no_keys img_v) 100 100) (modRequired banner_ex)"
    by (simp add: banner_ex_fields isModPressed_def)
  have h3': "isModPressed (MouseEvent (no_keys img_v) 100 100) (modRequired banner_ex)
      \<or> \<not> instanceof_MouseEvent (MouseEvent (no_keys img_v) 100 100)"
    using h3 by simp
  have g1: "0 < naturalWidth (target (ui (MouseEvent (no_keys img_v) 100 100)))"
    and g2: "0 < clientWidth (target (ui (MouseEvent (no_keys img_v) 100 100)))"
    and g3: "(of_nat (clientHeight (target (ui (MouseEvent (no_keys img_v) 100 100)))) :: rat) /
       of_nat (clientWidth (target (ui (MouseEvent (no_keys img_v) 100 100))))
     \<le> of_nat (naturalHeight (target (ui (MouseEvent (no_keys img_v) 100 100)))) /
       of_nat (naturalWidth (target (ui (MouseEvent (no_keys img_v) 100 100))))"
    by (simp_all add: no_keys_def img_v_def)
  have "vertical (dragData (run banner_ex
     (Start (MouseEvent (no_keys img_v) 100 100) #
      map Moved [MouseEvent (no_keys img_h) 100 80, MouseEvent (no_keys img_flat) 90 80])))"
    using axis_lock_fixed_for_gesture [OF h1 h2 h3',
        of "[MouseEvent (no_keys img_h) 100 80, MouseEvent (no_keys img_flat) 90 80]"]
      g1 g2 g3
    by blast
  moreover have m: "handleDragMove (MouseEvent (no_keys img_h) 100 80) drag_ex (Fin 50, Fin 50) =
     Inr (drag_ex\<lparr>x_last := Some 100, y_last := Some 80\<rparr>, (Fin 50, Fin 60))"
    by (simp add: move_active drag_ex_def getMousePos_def no_keys_def img_h_def move_ex)
  moreover have "vertical (drag_ex\<lparr>x_last := Some 100, y_last := Some 80\<rparr>) = vertical drag_ex"
    using axis_lock_fixed_for_gesture [OF h1 h2 h3'] m by blast
  ultimately show ?thesis using h1 h2 h3 g1 g2 g3 by (intro conjI)
qed

section \<open>The modifier-key policy\<close>

text \<open>
  C3. A mouse start whose modifier policy (alt, ctrl, meta or shift) is not satisfied
  does not start a gesture: the session is unchanged. The outcome of a touch start does
  not depend on the policy or on the keys held, and a touch start with a touch point is
  accepted. Under the policy none-required every mouse start is accepted.
\<close>

theorem modifier_policy_gate:
  "(\<not> isModPressed (MouseEvent u cx cy) m \<longrightarrow>
      handleDragStart (MouseEvent u cx cy) d m = Inr d \<and>
      (modRequired b = m \<and> dragData b = d \<longrightarrow> dispatch b (Start (MouseEvent u cx cy)) = b)) \<and>
   (target u' = target u \<longrightarrow>
      handleDragStart (TouchEvent u' ts) d m' = handleDragStart (TouchEvent u ts) d m) \<and>
   handleDragStart (TouchEvent u (t # ts)) d m =
     Inr (d\<lparr>x_last := Some (clientX t), y_last := Some (clientY t), isDragging := True,
            vertical := axis_lock (target u)\<rparr>) \<and>
   handleDragStart (MouseEvent u cx cy) d ModNone =
     Inr (d\<lparr>x_last := Some cx, y_last := Some cy, isDragging := True,
            vertical := axis_lock (target u)\<rparr>) \<and>
   isModPressed e ModAlt = altKey (ui e) \<and> isModPressed e ModCtrl = ctrlKey (ui e) \<and>
   isModPressed e ModMeta = metaKey (ui e) \<and> isModPressed e ModShift = shiftKey (ui e) \<and>
   isModPressed e ModNone"
  by (auto simp: handleDragStart_def getMousePos_def isModPressed_def dispatch_def on_start_def
      split: list.splits)

theorem modifier_policy_gate_witness:
  "\<not> isModPressed (MouseEvent (no_keys img_v) 100 100) ModCtrl \<and>
   handleDragStart (MouseEvent (no_keys img_v) 100 100) (dragData banner_ex) ModCtrl =
     Inr (dragData banner_ex) \<and>
   \<not> isDragging (dragData banner_ex) \<and>
   modRequired (banner_ex\<lparr>modRequired := ModCtrl\<rparr>) = ModCtrl \<and>
   dispatch (banner_ex\<lparr>modRequired := ModCtrl\<rparr>) (Start (MouseEvent (no_keys img_v) 100 100)) =
     banner_ex\<lparr>modRequired := ModCtrl\<rparr> \<and>
   target ((no_keys img_v)\<lparr>shiftKey := True\<rparr>) = target (no_keys img_v) \<and>
   handleDragStart (TouchEvent ((no_keys img_v)\<lparr>shiftKey := True\<rparr>) [\<lparr>clientX = 7, clientY = 9\<rparr>])
       (dragData banner_ex) ModNone =
     handleDragStart (TouchEvent (no_keys img_v) [\<lparr>clientX = 7, clientY = 9\<rparr>])
       (dragData banner_ex) ModCtrl \<and>
   isDragging (dragData (banner_ex\<lparr>modRequired := ModCtrl\<rparr>)) = False"
proof -
  have h1: "\<not> isModPressed (MouseEvent (no_keys img_v) 100 100) ModCtrl"
    by (simp add: isModPressed_def no_keys_def)
  have h2: "target ((no_keys img_v)\<lparr>shiftKey := True\<rparr>) = target (no_keys img_v)"
    by simp
  have h3: "\<not> isDragging (dragData banner_ex)"
    by (simp add: banner_ex_fields)
  have h4: "modRequired (banner_ex\<lparr>modRequired := ModCtrl\<rparr>) = ModCtrl \<and>
      dragData (banner_ex\<lparr>modRequired := ModCtrl\<rparr>) = dragData banner_ex"
    by simp
  note c = modifier_policy_gate [of "no_keys img_v" 100 100 ModCtrl "dragData banner_ex"
      "banner_ex\<lparr>modRequired := ModCtrl\<rparr>"
      "(no_keys img_v)\<lparr>shiftKey := True\<rparr>" "[\<lparr>clientX = 7, clientY = 9\<rparr>]" ModNone]
  have c1: "handleDragStart (MouseEvent (no_keys img_v) 100 100) (dragData banner_ex) ModCtrl =
      Inr (dragData banner_ex)"
    using c h1 by blast
  have c2: "dispatch (banner_ex\<lparr>modRequired := ModCtrl\<rparr>)
      (Start (MouseEvent (no_keys img_v) 100 100)) = banner_ex\<lparr>modRequired := ModCtrl\<rparr>"
    using c h1 h4 by blast
  have c3: "handleDragStart (TouchEvent ((no_keys img_v)\<lparr>shiftKey := True\<rparr>)
        [\<lparr>clientX = 7, clientY = 9\<rparr>]) (dragData banner_ex) ModNone =
     handleDragStart (TouchEvent (no_keys img_v) [\<lparr>clientX = 7, clientY = 9\<rparr>])
       (dragData banner_ex) ModCtrl"
    using c h2 by blast
  show ?thesis using h1 h2 h3 h4 c1 c2 c3 by simp
qed

section \<open>The committed patch\<close>

text \<open>
  C4. The call issued at the end of a gesture carries a patch with exactly one field,
  the one of the axis locked at the start of the gesture, and its value is the final
  displayed percentage of that axis divided by 100 and rounded to 5 decimal places:
  for a percentage \<open>q\<close> in [0, 100] it is the Number nearest to \<open>k / 100000\<close> for an
  integer \<open>k\<close> that is \<open>1000 * q\<close> rounded (up to the rounding of the product to
  binary64), and lies in [0, 1]. Every call the banner ever issues has exactly one field.
\<close>

theorem commit_single_axis:
  assumes "listening b (Start e)" and "getMousePos e = Inr (px, py)"
    and "isModPressed e (modRequired b) \<or> \<not> instanceof_MouseEvent e"
    and "up = MouseUp \<or> up = TouchEnd" and "listening b up"
    and "shown = objectPosition (run b (Start e # map Moved es))"
    and "p = (if axis_lock (target (ui e)) then snd shown else fst shown)"
  shows "upserts (run b (Start e # map Moved es @ [up])) =
           upserts b @ [(path b, axis_patch (axis_lock (target (ui e))) (normalized p))] \<and>
         one_axis (axis_patch (axis_lock (target (ui e))) (normalized p)) \<and>
         (\<forall>q. p = Fin q \<and> 0 \<le> q \<and> q \<le> 100 \<longrightarrow>
            (\<exists>k r. 0 \<le> k \<and> k \<le> 100000 \<and> \<bar>of_int k - 1000 * q\<bar> \<le> 1 / 2 + 1 / 2 ^ 37 \<and>
               normalized p = rnd (of_int k / 100000) \<and>
               normalized p = Fin r \<and> 0 \<le> r \<and> r \<le> 1)) \<and>
         (\<forall>evs. (\<forall>c \<in> set (upserts b). one_axis (snd c)) \<longrightarrow>
            (\<forall>c \<in> set (upserts (run b evs)). one_axis (snd c)))"
proof -
  define b' where "b' = run b (Start e # map Moved es)"
  have no_up: "\<forall>ev \<in> set (map Moved es). ev \<noteq> MouseUp \<and> ev \<noteq> TouchEnd" by auto
  have st: "isDragging (dragData b')" "upserts b' = upserts b"
    using gesture_state [OF assms(1-3) no_up] by (simp_all add: b'_def)
  have lock: "vertical (dragData b') = axis_lock (target (ui e))"
    using assms(1-3) by (simp add: b'_def run_Cons run_moved_lock dispatch_start_accepted)
  have "listening b' up" using assms(5) by (simp add: b'_def listening_run)
  then have "dispatch b' up = on_end b'" using assms(4) by (rule dispatch_up [rotated])
  moreover have "run b (Start e # map Moved es @ [up]) = dispatch b' up"
    using run_append [of b "Start e # map Moved es" "[up]"] by (simp add: b'_def run_Cons run_Nil)
  ultimately have call: "upserts (run b (Start e # map Moved es @ [up])) =
      upserts b @ [(path b, axis_patch (axis_lock (target (ui e))) (normalized p))]"
    using st lock assms(6,7) by (simp add: on_end_axis_patch b'_def [symmetric]) (simp add: b'_def path_run)
  show ?thesis
    using call one_axis_patch normalized_range run_calls_one_axis by blast
qed

theorem commit_single_axis_witness:
  "listening banner_ex (Start (MouseEvent (no_keys img_v) 100 100)) \<and>
   getMousePos (MouseEvent (no_keys img_v) 100 100) = Inr (100, 100) \<and>
   isModPressed (MouseEvent (no_keys img_v) 100 100) (modRequired banner_ex) \<and>
   listening banner_ex MouseUp \<and>
   (Fin 50, Fin 60) = objectPosition (run banner_ex
      (Start (MouseEvent (no_keys img_v) 100 100) # map Moved [MouseEvent (no_keys img_v) 100 80])) \<and>
   axis_lock (target (ui (MouseEvent (no_keys img_v) 100 100))) \<and>
   upserts (run banner_ex (Start (MouseEvent (no_keys img_v) 100 100) #
      map Moved [MouseEvent (no_keys img_v) 100 80] @ [MouseUp])) =
     upserts banner_ex @ [(path banner_ex, axis_patch True (normalized (Fin 60)))] \<and>
   (\<exists>k r. 0 \<le> k \<and> k \<le> 100000 \<and> \<bar>rat_of_int k - 1000 * 60\<bar> \<le> 1 / 2 + 1 / 2 ^ 37 \<and>
      normalized (Fin 60) = rnd (of_int k / 100000) \<and>
      normalized (Fin 60) = Fin r \<and> 0 \<le> r \<and> r \<le> 1) \<and>
   upserts banner_ex = [] \<and>
   one_axis (snd (last (upserts (run banner_ex (Start (MouseEvent (no_keys img_v) 100 100) #
      map Moved [MouseEvent (no_keys img_v) 100 80] @ [MouseUp])))))"
proof -
  have h1: "listening banner_ex (Start (MouseEvent (no_keys img_v) 100 100))"
    by code_simp
  have h2: "getMousePos (MouseEvent (no_keys img_v) 100 100) = Inr (100, 100)"
    by (simp add: getMousePos_def)
  have h3: "isModPressed (MouseEvent (no_keys img_v) 100 100) (modRequired banner_ex)"
    by code_simp
  have h3': "isModPressed (MouseEvent (no_keys img_v) 100 100) (modRequired banner_ex)
      \<or> \<not> instanceof_MouseEvent (MouseEvent (no_keys img_v) 100 100)"
    using h3 by simp
  have h4: "MouseUp = MouseUp \<or> MouseUp = TouchEnd" by simp
  have h5: "listening banner_ex MouseUp" by code_simp
  have h6: "(Fin 50, Fin 60) = objectPosition (run banner_ex
      (Start (MouseEvent (no_keys img_v) 100 100) # map Moved [MouseEvent (no_keys img_v) 100 80]))"
    using example_run_ex by simp
  have lk: "axis_lock (target (ui (MouseEvent (no_keys img_v) 100 100)))"
    by (simp add: no_keys_def lock_img_v)
  have h7: "Fin 60 = (if axis_lock (target (ui (MouseEvent (no_keys img_v) 100 100)))
      then snd (Fin 50, Fin 60) else fst (Fin 50, Fin 60))"
    using lk by simp
  note c = commit_single_axis [OF h1 h2 h3' h4 h5 h6 h7]
  have c1: "upserts (run banner_ex (Start (MouseEvent (no_keys img_v) 100 100) #
      map Moved [MouseEvent (no_keys img_v) 100 80] @ [MouseUp])) =
     upserts banner_ex @ [(path banner_ex, axis_patch True (normalized (Fin 60)))]"
    using c lk by simp
  have c2: "\<exists>k r. 0 \<le> k \<and> k \<le> 100000 \<and> \<bar>rat_of_int k - 1000 * 60\<bar> \<le> 1 / 2 + 1 / 2 ^ 37 \<and>
      normalized (Fin 60) = rnd (of_int k / 100000) \<and>
      normalized (Fin 60) = Fin r \<and> 0 \<le> r \<and> r \<le> 1"
    using c by simp
  have e: "upserts banner_ex = []" by (simp add: banner_ex_fields)
  then have "\<forall>c \<in> set (upserts banner_ex). one_axis (snd c)" by simp
  then have "\<forall>c \<in> set (upserts (run banner_ex (Start (MouseEvent (no_keys img_v) 100 100) #
      map Moved [MouseEvent (no_keys img_v) 100 80] @ [MouseUp]))). one_axis (snd c)"
    using c by blast
  then have c3: "one_axis (snd (last (upserts (run banner_ex
      (Start (MouseEvent (no_keys img_v) 100 100) #
       map Moved [MouseEvent (no_keys img_v) 100 80] @ [MouseUp])))))"
    using c1 by simp
  show ?thesis using h1 h2 h3 h5 h6 lk c1 c2 e c3 by (intro conjI)
qed


section \<open>Events outside a gesture\<close>

lemma run_moved_inactive:
  assumes "\<not> isDragging (dragData b)"
  shows "run b (map Moved es) = b"
proof (induction es)
  case Nil
  show ?case by (simp add: run_Nil)
next
  case (Cons e es)
  have "dispatch b (Moved e) = b"
    using assms by (simp add: dispatch_def on_move_def handleDragMove_def)
  then show ?case using Cons by (simp add: run_Cons)
qed

lemma dispatch_up_inactive:
  assumes "\<not> isDragging (dragData b)" "up = MouseUp \<or> up = TouchEnd"
  shows "dispatch b up = b"
  using assms by (auto simp: dispatch_def on_end_inactive)

text \<open>
  C5. While the session is inactive a move event and an end event change nothing: the
  displayed position stays and no call is issued. Hence a gesture issues one call even if
  further end events follow, and two completed gestures issue exactly two calls, in the
  order of the gestures.
\<close>

theorem inactive_noop_single_commit:
  assumes "listening b (Start e1)" and "getMousePos e1 = Inr p1"
    and "isModPressed e1 (modRequired b) \<or> \<not> instanceof_MouseEvent e1"
    and "listening b (Start e2)" and "getMousePos e2 = Inr p2"
    and "isModPressed e2 (modRequired b) \<or> \<not> instanceof_MouseEvent e2"
    and "\<forall>ev \<in> set evs1. ev \<noteq> MouseUp \<and> ev \<noteq> TouchEnd"
    and "\<forall>ev \<in> set evs2. ev \<noteq> MouseUp \<and> ev \<noteq> TouchEnd"
    and "up1 = MouseUp \<or> up1 = TouchEnd" and "listening b up1"
    and "up2 = MouseUp \<or> up2 = TouchEnd" and "listening b up2"
    and "up3 = MouseUp \<or> up3 = TouchEnd"
  shows "(\<forall>e d pos p. \<not> isDragging d \<longrightarrow>
            handleDragMove e d pos = Inr (d, pos) \<and> handleDragEnd pos p d = (d, None)) \<and>
         (\<forall>b' es. \<not> isDragging (dragData b') \<longrightarrow>
            run b' (map Moved es) = b' \<and> dispatch b' MouseUp = b' \<and> dispatch b' TouchEnd = b') \<and>
         (\<exists>c1 c2.
            upserts (run b (Start e1 # evs1 @ [up1])) = upserts b @ [c1] \<and>
            upserts (run b (Start e1 # evs1 @ [up1, up3])) = upserts b @ [c1] \<and>
            upserts (run b ((Start e1 # evs1 @ [up1]) @ (Start e2 # evs2 @ [up2]))) =
              upserts b @ [c1, c2] \<and>
            one_axis (snd c1) \<and> one_axis (snd c2))"
proof -
  have A: "\<forall>e d pos p. \<not> isDragging d \<longrightarrow>
            handleDragMove e d pos = Inr (d, pos) \<and> handleDragEnd pos p d = (d, None)"
    by (simp add: handleDragMove_def handleDragEnd_def)
  have B: "\<forall>b' es. \<not> isDragging (dragData b') \<longrightarrow>
            run b' (map Moved es) = b' \<and> dispatch b' MouseUp = b' \<and> dispatch b' TouchEnd = b'"
    by (simp add: run_moved_inactive dispatch_up_inactive)
  obtain x1 y1 where p1: "p1 = (x1, y1)" by (cases p1)
  obtain x2 y2 where p2: "p2 = (x2, y2)" by (cases p2)
  define g1 where "g1 = Start e1 # evs1 @ [up1]"
  define b1 where "b1 = run b g1"
  from gesture_commit [OF assms(1) assms(2) [unfolded p1] assms(3) assms(7) assms(9) assms(10)]
  obtain v1 n1 where c1: "upserts b1 = upserts b @ [(path b, axis_patch v1 n1)]"
    and idle: "\<not> isDragging (dragData b1)"
    by (auto simp: b1_def g1_def)
  have again: "upserts (run b (Start e1 # evs1 @ [up1, up3])) = upserts b1"
  proof -
    have "run b (Start e1 # evs1 @ [up1, up3]) = dispatch b1 up3"
      using run_append [of b g1 "[up3]"] by (simp add: b1_def g1_def run_Cons run_Nil)
    then show ?thesis using dispatch_up_inactive [OF idle assms(13)] by simp
  qed
  have l2: "listening b1 (Start e2)" "listening b1 up2"
    using assms(4,12) by (simp_all only: b1_def listening_run)
  have m2: "isModPressed e2 (modRequired b1) \<or> \<not> instanceof_MouseEvent e2"
  proof -
    have "modRequired (run b evs) = modRequired b" for evs
      by (induction evs arbitrary: b) (simp_all add: run_Nil run_Cons dispatch_frame)
    then show ?thesis using assms(6) by (simp add: b1_def)
  qed
  from gesture_commit [OF l2(1) assms(5) [unfolded p2] m2 assms(8) assms(11) l2(2)]
  obtain v2 n2 where
    c2: "upserts (run b1 (Start e2 # evs2 @ [up2])) = upserts b1 @ [(path b1, axis_patch v2 n2)]"
    by auto
  have two: "upserts (run b (g1 @ (Start e2 # evs2 @ [up2]))) =
      upserts b @ [(path b, axis_patch v1 n1), (path b1, axis_patch v2 n2)]"
    using c1 c2 by (simp add: run_append b1_def [symmetric])
  have C: "\<exists>c1 c2.
            upserts (run b (Start e1 # evs1 @ [up1])) = upserts b @ [c1] \<and>
            upserts (run b (Start e1 # evs1 @ [up1, up3])) = upserts b @ [c1] \<and>
            upserts (run b ((Start e1 # evs1 @ [up1]) @ (Start e2 # evs2 @ [up2]))) =
              upserts b @ [c1, c2] \<and>
            one_axis (snd c1) \<and> one_axis (snd c2)"
    apply (rule exI [of _ "(path b, axis_patch v1 n1)"])
    apply (rule exI [of _ "(path b1, axis_patch v2 n2)"])
    using c1 again two by (simp add: one_axis_patch b1_def g1_def)
  show ?thesis using A B C by (intro conjI)
qed


theorem inactive_noop_single_commit_witness:
  "listening banner_ex (Start (MouseEvent (no_keys img_v) 100 100)) \<and>
   getMousePos (MouseEvent (no_keys img_v) 100 100) = Inr (100, 100) \<and>
   isModPressed (MouseEvent (no_keys img_v) 100 100) (modRequired banner_ex) \<and>
   listening banner_ex (Start (TouchEvent (no_keys img_h) [\<lparr>clientX = 10, clientY = 10\<rparr>])) \<and>
   getMousePos (TouchEvent (no_keys img_h) [\<lparr>clientX = 10, clientY = 10\<rparr>]) = Inr (10, 10) \<and>
   \<not> instanceof_MouseEvent (TouchEvent (no_keys img_h) [\<lparr>clientX = 10, clientY = 10\<rparr>]) \<and>
   listening banner_ex MouseUp \<and> listening banner_ex TouchEnd \<and>
   \<not> isDragging (dragData banner_ex) \<and>
   handleDragMove (MouseEvent (no_keys img_v) 100 80) (dragData banner_ex) (Fin 50, Fin 50) =
     Inr (dragData banner_ex, (Fin 50, Fin 50)) \<and>
   handleDragEnd (Fin 50, Fin 50) ''note.md'' (dragData banner_ex) = (dragData banner_ex, None) \<and>
   run banner_ex (map Moved [MouseEvent (no_keys img_v) 100 80]) = banner_ex \<and>
   dispatch banner_ex MouseUp = banner_ex \<and> dispatch banner_ex TouchEnd = banner_ex \<and>
   (\<exists>c1 c2.
      upserts (run banner_ex (Start (MouseEvent (no_keys img_v) 100 100) #
        [Moved (MouseEvent (no_keys img_v) 100 80)] @ [MouseUp])) = upserts banner_ex @ [c1] \<and>
      upserts (run banner_ex (Start (MouseEvent (no_keys img_v) 100 100) #
        [Moved (MouseEvent (no_keys img_v) 100 80)] @ [MouseUp, TouchEnd])) =
        upserts banner_ex @ [c1] \<and>
      upserts (run banner_ex ((Start (MouseEvent (no_keys img_v) 100 100) #
        [Moved (MouseEvent (no_keys img_v) 100 80)] @ [MouseUp]) @
        (Start (TouchEvent (no_keys img_h) [\<lparr>clientX = 10, clientY = 10\<rparr>]) # [] @ [TouchEnd]))) =
        upserts banner_ex @ [c1, c2] \<and>
      one_axis (snd c1) \<and> one_axis (snd c2))"
proof -
  have h1: "listening banner_ex (Start (MouseEvent (no_keys img_v) 100 100))"
    and h4: "listening banner_ex (Start (TouchEvent (no_keys img_h) [\<lparr>clientX = 10, clientY = 10\<rparr>]))"
    and h10: "listening banner_ex MouseUp" and h12: "listening banner_ex TouchEnd"
    by (simp_all add: banner_ex_fields)
  have h2: "getMousePos (MouseEvent (no_keys img_v) 100 100) = Inr (100, 100)"
    and h5: "getMousePos (TouchEvent (no_keys img_h) [\<lparr>clientX = 10, clientY = 10\<rparr>]) = Inr (10, 10)"
    by (simp_all add: getMousePos_def)
  have h3: "isModPressed (MouseEvent (no_keys img_v) 100 100) (modRequired banner_ex)"
    by (simp add: banner_ex_fields isModPressed_def)
  have h3': "isModPressed (MouseEvent (no_keys img_v) 100 100) (modRequired banner_ex)
      \<or> \<not> instanceof_MouseEvent (MouseEvent (no_keys img_v) 100 100)"
    using h3 by simp
  have h6: "\<not> instanceof_MouseEvent (TouchEvent (no_keys img_h) [\<lparr>clientX = 10, clientY = 10\<rparr>])"
    by simp
  have h6': "isModPressed (TouchEvent (no_keys img_h) [\<lparr>clientX = 10, clientY = 10\<rparr>])
        (modRequired banner_ex)
      \<or> \<not> instanceof_MouseEvent (TouchEvent (no_keys img_h) [\<lparr>clientX = 10, clientY = 10\<rparr>])"
    using h6 by simp
  have h7: "\<forall>ev \<in> set [Moved (MouseEvent (no_keys img_v) 100 80)]. ev \<noteq> MouseUp \<and> ev \<noteq> TouchEnd"
    and h8: "\<forall>ev \<in> set ([] :: DomEvent list). ev \<noteq> MouseUp \<and> ev \<noteq> TouchEnd"
    by simp_all
  have h9: "MouseUp = MouseUp \<or> MouseUp = TouchEnd"
    and h11: "TouchEnd = MouseUp \<or> TouchEnd = TouchEnd"
    by simp_all
  have idle: "\<not> isDragging (dragData banner_ex)"
    by (simp add: banner_ex_fields)
  note c = inactive_noop_single_commit [OF h1 h2 h3' h4 h5 h6' h7 h8 h9 h10 h11 h12 h11]
  from c have c1: "handleDragMove (MouseEvent (no_keys img_v) 100 80) (dragData banner_ex)
       (Fin 50, Fin 50) = Inr (dragData banner_ex, (Fin 50, Fin 50))"
    and c2: "handleDragEnd (Fin 50, Fin 50) ''note.md'' (dragData banner_ex) =
       (dragData banner_ex, None)"
    using idle by blast+
  from c have c3: "\<exists>c1 c2.
      upserts (run banner_ex (Start (MouseEvent (no_keys img_v) 100 100) #
        [Moved (MouseEvent (no_keys img_v) 100 80)] @ [MouseUp])) = upserts banner_ex @ [c1] \<and>
      upserts (run banner_ex (Start (MouseEvent (no_keys img_v) 100 100) #
        [Moved (MouseEvent (no_keys img_v) 100 80)] @ [MouseUp, TouchEnd])) =
        upserts banner_ex @ [c1] \<and>
      upserts (run banner_ex ((Start (MouseEvent (no_keys img_v) 100 100) #
        [Moved (MouseEvent (no_keys img_v) 100 80)] @ [MouseUp]) @
        (Start (TouchEvent (no_keys img_h) [\<lparr>clientX = 10, clientY = 10\<rparr>]) # [] @ [TouchEnd]))) =
        upserts banner_ex @ [c1, c2] \<and>
      one_axis (snd c1) \<and> one_axis (snd c2)"
    by blast
  from c have c4: "run banner_ex (map Moved [MouseEvent (no_keys img_v) 100 80]) = banner_ex"
    and c5: "dispatch banner_ex MouseUp = banner_ex"
    and c6: "dispatch banner_ex TouchEnd = banner_ex"
    using idle by blast+
  show ?thesis
    using h1 h2 h3 h4 h5 h6 h10 h12 idle c1 c2 c4 c5 c6 c3 by (intro conjI)
qed

section \<open>Touch events without a touch point\<close>

text \<open>
  C6, as the code has it. For a touch event with no active touch point the start
  handler, and the move handler while a gesture is active, throw a \<open>TypeError\<close> when they
  read the first touch point; nothing has been written by then, so the gesture does not
  start and the session and the displayed position are as before. With no gesture
  active the move handler returns before it reads the touch point.
\<close>

theorem empty_touch_throws_before_writing:
  "handleDragStart (TouchEvent u []) d m = Inl TypeError \<and>
   handleDragMove (TouchEvent u []) d pos =
     (if isDragging d then Inl TypeError else Inr (d, pos)) \<and>
   dispatch b (Start (TouchEvent u [])) = b \<and>
   dispatch b (Moved (TouchEvent u [])) = b"
  by (simp add: handleDragStart_def handleDragMove_def getMousePos_def dispatch_def
      on_start_def on_move_def)

theorem empty_touch_throws_before_writing_witness:
  "handleDragMove (TouchEvent (no_keys img_v) []) drag_ex (Fin 50, Fin 50) = Inl TypeError \<and>
   handleDragMove (TouchEvent (no_keys img_v) []) (dragData banner_ex) (Fin 50, Fin 50) =
     Inr (dragData banner_ex, (Fin 50, Fin 50)) \<and>
   dispatch banner_ex (Start (TouchEvent (no_keys img_v) [])) = banner_ex"
  using empty_touch_throws_before_writing [of "no_keys img_v" drag_ex ModNone "(Fin 50, Fin 50)" banner_ex]
    empty_touch_throws_before_writing [of "no_keys img_v" "dragData banner_ex" ModNone
      "(Fin 50, Fin 50)" banner_ex]
  by (simp add: drag_ex_def banner_ex_fields)

text \<open>The claim as stated fails: the start handler does not return normally.\<close>

theorem empty_touch_start_counterexample:
  "handleDragStart (TouchEvent (no_keys img_v) []) (dragData banner_ex) ModNone = Inl TypeError \<and>
   handleDragStart (TouchEvent (no_keys img_v) []) (dragData banner_ex) ModNone
     \<noteq> Inr (dragData banner_ex)"
  by (simp add: handleDragStart_def getMousePos_def isModPressed_def)


section \<open>A rendered dimension of zero\<close>

lemma zero_dimension_delta:
  assumes "num_sub (to_number stored) (Fin current) = Fin q"
  shows "clamp (num_add (Fin c) (delta_percent stored current 0)) (Fin 0) (Fin 100) =
           (if 0 < q then Fin 100 else if q < 0 then Fin 0 else NaN)"
  using assms by (simp add: delta_percent_def inf_of_sign_def clamp_def num_ge_def)

lemma zero_height_position:
  assumes "num_sub (to_number stored) (Fin current) = Fin q" and "serialized (Fin a) = Fin a"
  shows "set_objectPosition (Fin a, Fin c) (Fin a)
           (clamp (num_add (Fin c) (delta_percent stored current 0)) (Fin 0) (Fin 100)) =
         (if 0 < q then (Fin a, Fin 100) else if q < 0 then (Fin a, Fin 0) else (Fin a, Fin c))"
  using assms(2) serialized_100 serialized_0
  by (simp add: zero_dimension_delta [OF assms(1)] set_objectPosition_def del: serialized.simps)

lemma zero_width_position:
  assumes "num_sub (to_number stored) (Fin current) = Fin q" and "serialized (Fin c) = Fin c"
  shows "set_objectPosition (Fin a, Fin c)
           (clamp (num_add (Fin a) (delta_percent stored current 0)) (Fin 0) (Fin 100)) (Fin c) =
         (if 0 < q then (Fin 100, Fin c) else if q < 0 then (Fin 0, Fin c) else (Fin a, Fin c))"
  using assms(2) serialized_100 serialized_0
  by (simp add: zero_dimension_delta [OF assms(1)] set_objectPosition_def del: serialized.simps)

text \<open>
  C7, as the code has it. A move event during a gesture is never skipped because of the
  geometry, and the geometry makes no handler throw: the stored pointer coordinates are
  always replaced by the current ones. Only the rendered dimension of the locked axis
  enters the result; the other dimension, zero or not, has no effect. A zero dimension
  on the locked axis makes the delta infinite or NaN. With a displayed position of two
  percentages, the percentage of the locked axis becomes 100 when the stored pointer
  coordinate is larger than the current one and 0 when it is smaller, the other
  percentage, one the style holds (it reads back as itself), staying as it is; when the
  two coordinates are equal the handler assigns \<open>NaN%\<close>, which the element ignores,
  and the displayed position is unchanged. An element whose style was never set stays
  that way.
\<close>

theorem zero_dimension_move:
  assumes "isDragging d" and "getMousePos e = Inr (px, py)"
  shows "\<exists>pos'. handleDragMove e d pos = Inr (d\<lparr>x_last := Some px, y_last := Some py\<rparr>, pos') \<and>
     (pos = unset_style \<longrightarrow> pos' = pos) \<and>
     (vertical d \<longrightarrow>
        (\<forall>e'. getMousePos e' = Inr (px, py) \<and>
              clientHeight (target (ui e')) = clientHeight (target (ui e)) \<longrightarrow>
              handleDragMove e' d pos = handleDragMove e d pos) \<and>
        (\<forall>a c q. clientHeight (target (ui e)) = 0 \<and> pos = (Fin a, Fin c) \<and>
              serialized (Fin a) = Fin a \<and>
              num_sub (to_number (y_last d)) (Fin py) = Fin q \<longrightarrow>
              pos' = (if 0 < q then (Fin a, Fin 100) else if q < 0 then (Fin a, Fin 0) else pos))) \<and>
     (\<not> vertical d \<longrightarrow>
        (\<forall>e'. getMousePos e' = Inr (px, py) \<and>
              clientWidth (target (ui e')) = clientWidth (target (ui e)) \<longrightarrow>
              handleDragMove e' d pos = handleDragMove e d pos) \<and>
        (\<forall>a c q. clientWidth (target (ui e)) = 0 \<and> pos = (Fin a, Fin c) \<and>
              serialized (Fin c) = Fin c \<and>
              num_sub (to_number (x_last d)) (Fin px) = Fin q \<longrightarrow>
              pos' = (if 0 < q then (Fin 100, Fin c) else if q < 0 then (Fin 0, Fin c) else pos)))"
proof -
  define pos' where "pos' =
    (if vertical d
     then set_objectPosition pos (fst pos) (clamp (num_add (snd pos)
             (delta_percent (y_last d) py (clientHeight (target (ui e))))) (Fin 0) (Fin 100))
     else set_objectPosition pos (clamp (num_add (fst pos)
             (delta_percent (x_last d) px (clientWidth (target (ui e))))) (Fin 0) (Fin 100)) (snd pos))"
  have m: "handleDragMove e d pos = Inr (d\<lparr>x_last := Some px, y_last := Some py\<rparr>, pos')"
    using move_active [OF assms] by (simp only: pos'_def)
  have u: "pos = unset_style \<longrightarrow> pos' = pos"
    by (simp add: pos'_def unset_style_def set_objectPosition_def)
  have v1: "handleDragMove e' d pos = handleDragMove e d pos"
    if "vertical d" "getMousePos e' = Inr (px, py)"
      "clientHeight (target (ui e')) = clientHeight (target (ui e))" for e'
    using that by (simp add: move_active [OF assms] move_active [OF assms(1) that(2)])
  have v2: "pos' = (if 0 < q then (Fin a, Fin 100) else if q < 0 then (Fin a, Fin 0) else pos)"
    if "vertical d" "clientHeight (target (ui e)) = 0" "pos = (Fin a, Fin c)"
      "serialized (Fin a) = Fin a" "num_sub (to_number (y_last d)) (Fin py) = Fin q" for a c q
    using that(1-3) zero_height_position [OF that(5,4), of c]
    by (simp add: pos'_def del: serialized.simps)
  have h1: "handleDragMove e' d pos = handleDragMove e d pos"
    if "\<not> vertical d" "getMousePos e' = Inr (px, py)"
      "clientWidth (target (ui e')) = clientWidth (target (ui e))" for e'
    using that by (simp add: move_active [OF assms] move_active [OF assms(1) that(2)])
  have h2: "pos' = (if 0 < q then (Fin 100, Fin c) else if q < 0 then (Fin 0, Fin c) else pos)"
    if "\<not> vertical d" "clientWidth (target (ui e)) = 0" "pos = (Fin a, Fin c)"
      "serialized (Fin c) = Fin c" "num_sub (to_number (x_last d)) (Fin px) = Fin q" for a c q
    using that(1-3) zero_width_position [OF that(5,4), of a]
    by (simp add: pos'_def del: serialized.simps)
  show ?thesis using m u v1 v2 h1 h2 by blast
qed

lemma sub_ex: "num_sub (to_number (y_last drag_ex)) (Fin 80) = Fin 20"
  by code_simp

lemma sub_ex_eq: "num_sub (to_number (y_last drag_ex)) (Fin 100) = Fin 0"
  by code_simp

lemma sub_ex_h: "num_sub (to_number (x_last (drag_ex\<lparr>vertical := False\<rparr>))) (Fin 120) = Fin (- 20)"
  by code_simp

theorem zero_dimension_move_witness:
  "isDragging drag_ex \<and> vertical drag_ex \<and>
   getMousePos (MouseEvent (no_keys img_flat) 100 80) = Inr (100, 80) \<and>
   clientHeight (target (ui (MouseEvent (no_keys img_flat) 100 80))) = 0 \<and>
   serialized (Fin 50) = Fin 50 \<and>
   num_sub (to_number (y_last drag_ex)) (Fin 80) = Fin 20 \<and>
   handleDragMove (MouseEvent (no_keys img_flat) 100 80) drag_ex (Fin 50, Fin 50) =
     Inr (drag_ex\<lparr>x_last := Some 100, y_last := Some 80\<rparr>, (Fin 50, Fin 100)) \<and>
   getMousePos (MouseEvent (no_keys img_flat) 90 100) = Inr (90, 100) \<and>
   clientHeight (target (ui (MouseEvent (no_keys img_flat) 90 100))) = 0 \<and>
   num_sub (to_number (y_last drag_ex)) (Fin 100) = Fin 0 \<and>
   handleDragMove (MouseEvent (no_keys img_flat) 90 100) drag_ex (Fin 50, Fin 50) =
     Inr (drag_ex\<lparr>x_last := Some 90, y_last := Some 100\<rparr>, (Fin 50, Fin 50)) \<and>
   handleDragMove (MouseEvent (no_keys img_flat) 100 80) drag_ex unset_style =
     Inr (drag_ex\<lparr>x_last := Some 100, y_last := Some 80\<rparr>, unset_style) \<and>
   isDragging (drag_ex\<lparr>vertical := False\<rparr>) \<and> \<not> vertical (drag_ex\<lparr>vertical := False\<rparr>) \<and>
   getMousePos (MouseEvent (no_keys img_thin) 120 100) = Inr (120, 100) \<and>
   clientWidth (target (ui (MouseEvent (no_keys img_thin) 120 100))) = 0 \<and>
   num_sub (to_number (x_last (drag_ex\<lparr>vertical := False\<rparr>))) (Fin 120) = Fin (- 20) \<and>
   handleDragMove (MouseEvent (no_keys img_thin) 120 100) (drag_ex\<lparr>vertical := False\<rparr>)
       (Fin 50, Fin 50) =
     Inr (drag_ex\<lparr>vertical := False, x_last := Some 120, y_last := Some 100\<rparr>, (Fin 0, Fin 50))"
proof -
  have h1: "isDragging drag_ex" and v: "vertical drag_ex"
    by (simp_all add: drag_ex_def)
  have h2: "getMousePos (MouseEvent (no_keys img_flat) 100 80) = Inr (100, 80)"
    by (simp add: getMousePos_def)
  have z: "clientHeight (target (ui (MouseEvent (no_keys img_flat) 100 80))) = 0"
    by (simp add: no_keys_def img_flat_def)
  from zero_dimension_move [OF h1 h2, of "(Fin 50, Fin 50)"]
  obtain pos' where
    m: "handleDragMove (MouseEvent (no_keys img_flat) 100 80) drag_ex (Fin 50, Fin 50) =
          Inr (drag_ex\<lparr>x_last := Some 100, y_last := Some 80\<rparr>, pos')"
    and y: "vertical drag_ex \<longrightarrow>
        (\<forall>a c q. clientHeight (target (ui (MouseEvent (no_keys img_flat) 100 80))) = 0 \<and>
              (Fin 50, Fin 50) = (Fin a, Fin c) \<and> serialized (Fin a) = Fin a \<and>
              num_sub (to_number (y_last drag_ex)) (Fin 80) = Fin q \<longrightarrow>
              pos' = (if 0 < q then (Fin a, Fin 100) else if q < 0 then (Fin a, Fin 0)
                      else (Fin 50, Fin 50)))"
    by blast
  have "pos' = (if (0::rat) < 20 then (Fin 50, Fin 100) else if (20::rat) < 0 then (Fin 50, Fin 0)
                else (Fin 50, Fin 50))"
    using y v z sub_ex serialized_50 by blast
  then have A: "handleDragMove (MouseEvent (no_keys img_flat) 100 80) drag_ex (Fin 50, Fin 50) =
      Inr (drag_ex\<lparr>x_last := Some 100, y_last := Some 80\<rparr>, (Fin 50, Fin 100))"
    using m by simp
  have e2: "getMousePos (MouseEvent (no_keys img_flat) 90 100) = Inr (90, 100)"
    by (simp add: getMousePos_def)
  have z2: "clientHeight (target (ui (MouseEvent (no_keys img_flat) 90 100))) = 0"
    by (simp add: no_keys_def img_flat_def)
  from zero_dimension_move [OF h1 e2, of "(Fin 50, Fin 50)"]
  obtain pos2 where
    m2: "handleDragMove (MouseEvent (no_keys img_flat) 90 100) drag_ex (Fin 50, Fin 50) =
          Inr (drag_ex\<lparr>x_last := Some 90, y_last := Some 100\<rparr>, pos2)"
    and y2: "vertical drag_ex \<longrightarrow>
        (\<forall>a c q. clientHeight (target (ui (MouseEvent (no_keys img_flat) 90 100))) = 0 \<and>
              (Fin 50, Fin 50) = (Fin a, Fin c) \<and> serialized (Fin a) = Fin a \<and>
              num_sub (to_number (y_last drag_ex)) (Fin 100) = Fin q \<longrightarrow>
              pos2 = (if 0 < q then (Fin a, Fin 100) else if q < 0 then (Fin a, Fin 0)
                      else (Fin 50, Fin 50)))"
    by blast
  have "pos2 = (if (0::rat) < 0 then (Fin 50, Fin 100) else if (0::rat) < 0 then (Fin 50, Fin 0)
                else (Fin 50, Fin 50))"
    using y2 v z2 sub_ex_eq serialized_50 by blast
  then have B: "handleDragMove (MouseEvent (no_keys img_flat) 90 100) drag_ex (Fin 50, Fin 50) =
      Inr (drag_ex\<lparr>x_last := Some 90, y_last := Some 100\<rparr>, (Fin 50, Fin 50))"
    using m2 by simp
  from zero_dimension_move [OF h1 h2, of unset_style]
  have C: "handleDragMove (MouseEvent (no_keys img_flat) 100 80) drag_ex unset_style =
      Inr (drag_ex\<lparr>x_last := Some 100, y_last := Some 80\<rparr>, unset_style)"
    by auto
  have k1: "isDragging (drag_ex\<lparr>vertical := False\<rparr>)"
    and nv: "\<not> vertical (drag_ex\<lparr>vertical := False\<rparr>)"
    by (simp_all add: drag_ex_def)
  have k2: "getMousePos (MouseEvent (no_keys img_thin) 120 100) = Inr (120, 100)"
    by (simp add: getMousePos_def)
  have zw: "clientWidth (target (ui (MouseEvent (no_keys img_thin) 120 100))) = 0"
    by (simp add: no_keys_def img_thin_def)
  from zero_dimension_move [OF k1 k2, of "(Fin 50, Fin 50)"]
  obtain pos3 where
    m3: "handleDragMove (MouseEvent (no_keys img_thin) 120 100) (drag_ex\<lparr>vertical := False\<rparr>)
          (Fin 50, Fin 50) =
          Inr (drag_ex\<lparr>vertical := False, x_last := Some 120, y_last := Some 100\<rparr>, pos3)"
    and x3: "\<not> vertical (drag_ex\<lparr>vertical := False\<rparr>) \<longrightarrow>
        (\<forall>a c q. clientWidth (target (ui (MouseEvent (no_keys img_thin) 120 100))) = 0 \<and>
              (Fin 50, Fin 50) = (Fin a, Fin c) \<and> serialized (Fin c) = Fin c \<and>
              num_sub (to_number (x_last (drag_ex\<lparr>vertical := False\<rparr>))) (Fin 120) = Fin q \<longrightarrow>
              pos3 = (if 0 < q then (Fin 100, Fin c) else if q < 0 then (Fin 0, Fin c)
                      else (Fin 50, Fin 50)))"
    by blast
  have "pos3 = (if (0::rat) < - 20 then (Fin 100, Fin 50) else if (- 20::rat) < 0 then (Fin 0, Fin 50)
                else (Fin 50, Fin 50))"
    using x3 nv zw sub_ex_h serialized_50 by blast
  then have D: "handleDragMove (MouseEvent (no_keys img_thin) 120 100) (drag_ex\<lparr>vertical := False\<rparr>)
        (Fin 50, Fin 50) =
      Inr (drag_ex\<lparr>vertical := False, x_last := Some 120, y_last := Some 100\<rparr>, (Fin 0, Fin 50))"
    using m3 by simp
  show ?thesis
    using h1 v h2 z serialized_50 sub_ex A e2 z2 sub_ex_eq B C k1 nv k2 zw sub_ex_h D
    by (intro conjI)
qed

lemma zero_height_ex:
  "set_objectPosition (Fin 50, Fin 50) (Fin 50)
     (clamp (num_add (Fin 50) (delta_percent (Some 100) 80 0)) (Fin 0) (Fin 100)) = (Fin 50, Fin 100)"
  by code_simp

text \<open>The claim as stated fails: with a height of zero the position jumps from 50 to 100.\<close>

theorem zero_height_move_counterexample:
  "handleDragMove (MouseEvent (no_keys img_flat) 100 80) drag_ex (Fin 50, Fin 50) =
     Inr (drag_ex\<lparr>x_last := Some 100, y_last := Some 80\<rparr>, (Fin 50, Fin 100)) \<and>
   (Fin 50, Fin 100) \<noteq> (Fin 50, Fin 50 :: jsval)"
  by (simp add: move_active drag_ex_def getMousePos_def no_keys_def img_flat_def zero_height_ex)

section \<open>The session after a gesture\<close>

text \<open>
  C8, as the code has it. After every completed gesture the active flag is false; the
  stored pointer coordinates and the axis lock are not reset and keep the values of the
  last start or move event.
\<close>

theorem end_clears_active_flag_only:
  assumes "isDragging (dragData b)" and "up = MouseUp \<or> up = TouchEnd" and "listening b up"
  shows "dragData (dispatch b up) = (dragData b)\<lparr>isDragging := False\<rparr> \<and>
         fst (handleDragEnd pos p (dragData b)) = (dragData b)\<lparr>isDragging := False\<rparr> \<and>
         \<not> isDragging (dragData (dispatch b up)) \<and>
         x_last (dragData (dispatch b up)) = x_last (dragData b) \<and>
         y_last (dragData (dispatch b up)) = y_last (dragData b) \<and>
         vertical (dragData (dispatch b up)) = vertical (dragData b)"
  using assms by (simp add: dispatch_up on_end_active end_active)

theorem end_clears_active_flag_only_witness:
  "isDragging (dragData (banner_ex\<lparr>dragData := drag_ex\<rparr>)) \<and>
   listening (banner_ex\<lparr>dragData := drag_ex\<rparr>) MouseUp \<and>
   dragData (dispatch (banner_ex\<lparr>dragData := drag_ex\<rparr>) MouseUp) =
     \<lparr>x_last = Some 100, y_last = Some 100, isDragging = False, vertical = True\<rparr>"
proof -
  have h1: "isDragging (dragData (banner_ex\<lparr>dragData := drag_ex\<rparr>))"
    by (simp add: drag_ex_def)
  have h2: "MouseUp = MouseUp \<or> MouseUp = TouchEnd" by simp
  have h3: "listening (banner_ex\<lparr>dragData := drag_ex\<rparr>) MouseUp"
    by (simp add: banner_ex_fields)
  from end_clears_active_flag_only [OF h1 h2 h3]
  have "dragData (dispatch (banner_ex\<lparr>dragData := drag_ex\<rparr>) MouseUp) =
     \<lparr>x_last = Some 100, y_last = Some 100, isDragging = False, vertical = True\<rparr>"
    by (simp add: drag_ex_def)
  then show ?thesis using h1 h3 by simp
qed

text \<open>The claim as stated fails: the stored coordinates are still there after the end.\<close>

theorem end_keeps_coordinates_counterexample:
  "isDragging drag_ex \<and>
   x_last (fst (handleDragEnd (Fin 50, Fin 60) ''note.md'' drag_ex)) = Some 100 \<and>
   x_last (fst (handleDragEnd (Fin 50, Fin 60) ''note.md'' drag_ex)) \<noteq> None \<and>
   y_last (fst (handleDragEnd (Fin 50, Fin 60) ''note.md'' drag_ex)) = Some 100"
  by (simp add: handleDragEnd_def drag_ex_def Let_def)


section \<open>The initial position\<close>

lemma initial_percent_eq:
  "num_mul (clamp (case v of None \<Rightarrow> Fin (1 / 2)
                   | Some n \<Rightarrow> if n = Undefined then Fin (1 / 2) else n) (Fin 0) (Fin 1)) (Fin 100) =
     initial_percent v"
proof (cases v)
  case None
  then show ?thesis by (simp add: initial_percent_def clamp_def num_ge_def rnd_50)
next
  case (Some n)
  then show ?thesis
    by (cases n) (auto simp: initial_percent_def clamp_def num_ge_def rnd_100 rnd_0 rnd_50)
qed

lemma initial_percent_range:
  assumes "v \<noteq> Some NaN"
  shows "\<exists>r. initial_percent v = Fin r \<and> 0 \<le> r \<and> r \<le> 100"
proof (cases v)
  case None
  then show ?thesis by (simp add: initial_percent_def)
next
  case (Some n)
  show ?thesis
  proof (cases n)
    case (Fin q)
    show ?thesis
    proof (cases "0 < q \<and> q < 1")
      case True
      then have "0 \<le> q * 100" "q * 100 \<le> of_nat 100" by simp_all
      from rnd_range [OF this] show ?thesis
        using True Some Fin by (simp add: initial_percent_def)
    next
      case False
      then show ?thesis using Some Fin by (auto simp: initial_percent_def)
    qed
  qed (use Some assms in \<open>simp_all add: initial_percent_def\<close>)
qed

lemma initial_set:
  "objectPosition (getBannerElements settings bannerData filepath isEmbed) =
     set_objectPosition unset_style (initial_percent (x_meta bannerData))
       (initial_percent (y_meta bannerData))"
  by (simp add: getBannerElements_def Let_def initial_percent_eq)

lemma initial_numbers:
  assumes "x_meta bannerData \<noteq> Some NaN" "y_meta bannerData \<noteq> Some NaN"
  shows "objectPosition (getBannerElements settings bannerData filepath isEmbed) =
     (serialized (initial_percent (x_meta bannerData)),
      serialized (initial_percent (y_meta bannerData)))"
  using initial_percent_range [OF assms(1)] initial_percent_range [OF assms(2)]
  by (auto simp: initial_set set_objectPosition_def simp del: serialized.simps)

lemma initial_nan:
  assumes "x_meta bannerData = Some NaN \<or> y_meta bannerData = Some NaN"
  shows "objectPosition (getBannerElements settings bannerData filepath isEmbed) = unset_style"
  using assms by (auto simp: initial_set set_objectPosition_def initial_percent_def)

lemma initial_percent_read:
  assumes "v \<noteq> Some NaN"
  shows "\<exists>c r. initial_percent v = Fin c \<and> 0 \<le> c \<and> c \<le> 100 \<and>
           serialized (Fin c) = Fin r \<and> 0 \<le> r \<and> r \<le> 100 \<and> \<bar>r - c\<bar> \<le> 1 / 1000"
proof -
  from initial_percent_range [OF assms] obtain c where
    c: "initial_percent v = Fin c" "0 \<le> c" "c \<le> 100" by blast
  from serialized_range [OF c(2,3)] show ?thesis using c by blast
qed

lemma percent_ex: "serialized (initial_percent (Some (rnd (333 / 1000)))) = rnd (333 / 10)"
  by code_simp

lemma rnd_333: "rnd (333 / 1000) \<noteq> NaN"
  by code_simp

text \<open>
  C9, as the code has it. With each component absent or any Number other than NaN, the
  initial displayed position defaults a missing component to 0.5, clamps the component
  into [0, 1] and renders 100 times it as the percentage; the style reads each
  percentage back to 6 significant digits, within [0, 100] and within 0.001 of the
  product. A missing \<open>y\<close> renders as 50, and a persisted \<open>x\<close> of 0.333 with \<open>y\<close> absent
  renders as \<open>"33.3% 50%"\<close>. A persisted value of at most 5 decimals, \<open>k / 100000\<close>,
  renders as the percentage \<open>k / 1000\<close>, and a displayed percentage \<open>k / 1000\<close> commits
  \<open>k / 100000\<close>: persisting and re-reading reproduces the position. A component that is
  NaN is not clamped: the string assigned is not a position and the style of the
  element stays unset.
\<close>

theorem initial_position:
  "(x_meta bannerData \<noteq> Some NaN \<and> y_meta bannerData \<noteq> Some NaN \<longrightarrow>
      objectPosition (getBannerElements settings bannerData filepath isEmbed) =
        (serialized (initial_percent (x_meta bannerData)),
         serialized (initial_percent (y_meta bannerData)))) \<and>
   (x_meta bannerData = Some NaN \<or> y_meta bannerData = Some NaN \<longrightarrow>
      objectPosition (getBannerElements settings bannerData filepath isEmbed) = unset_style) \<and>
   (\<forall>v. v \<noteq> Some NaN \<longrightarrow>
      (\<exists>c r. initial_percent v = Fin c \<and> 0 \<le> c \<and> c \<le> 100 \<and>
             serialized (Fin c) = Fin r \<and> 0 \<le> r \<and> r \<le> 100 \<and> \<bar>r - c\<bar> \<le> 1 / 1000)) \<and>
   serialized (initial_percent None) = Fin 50 \<and>
   objectPosition (getBannerElements settings
      \<lparr>x_meta = Some (rnd (333 / 1000)), y_meta = None, lock = locked\<rparr> filepath isEmbed) =
     (rnd (333 / 10), Fin 50) \<and>
   (\<forall>k. 0 \<le> k \<and> k \<le> 100000 \<longrightarrow>
      serialized (initial_percent (Some (rnd (of_int k / 100000)))) = rnd (of_int k / 1000) \<and>
      normalized (rnd (of_int k / 1000)) = rnd (of_int k / 100000))"
proof -
  have a: "x_meta bannerData \<noteq> Some NaN \<and> y_meta bannerData \<noteq> Some NaN \<longrightarrow>
      objectPosition (getBannerElements settings bannerData filepath isEmbed) =
        (serialized (initial_percent (x_meta bannerData)),
         serialized (initial_percent (y_meta bannerData)))"
    using initial_numbers by blast
  have b: "x_meta bannerData = Some NaN \<or> y_meta bannerData = Some NaN \<longrightarrow>
      objectPosition (getBannerElements settings bannerData filepath isEmbed) = unset_style"
    using initial_nan by blast
  have c: "\<forall>v. v \<noteq> Some NaN \<longrightarrow>
      (\<exists>c r. initial_percent v = Fin c \<and> 0 \<le> c \<and> c \<le> 100 \<and>
             serialized (Fin c) = Fin r \<and> 0 \<le> r \<and> r \<le> 100 \<and> \<bar>r - c\<bar> \<le> 1 / 1000)"
    using initial_percent_read by blast
  have d: "serialized (initial_percent None) = Fin 50"
    using serialized_50 by (simp add: initial_percent_def del: serialized.simps)
  have "Some (rnd (333 / 1000)) \<noteq> Some NaN" using rnd_333 by simp
  then have e: "objectPosition (getBannerElements settings
      \<lparr>x_meta = Some (rnd (333 / 1000)), y_meta = None, lock = locked\<rparr> filepath isEmbed) =
     (rnd (333 / 10), Fin 50)"
    using percent_ex d by (simp add: initial_numbers del: serialized.simps)
  have f: "\<forall>k. 0 \<le> k \<and> k \<le> 100000 \<longrightarrow>
      serialized (initial_percent (Some (rnd (of_int k / 100000)))) = rnd (of_int k / 1000) \<and>
      normalized (rnd (of_int k / 1000)) = rnd (of_int k / 100000)"
    using persisted_renders displayed_commits by blast
  show ?thesis using a b c d e f by (intro conjI)
qed

lemma percent_2: "initial_percent (Some (Fin 2)) = Fin 100"
  by (simp add: initial_percent_def)

lemma rnd_60: "rnd 60 = Fin 60"
  by code_simp

theorem initial_position_witness:
  "Some (Fin 2) \<noteq> Some NaN \<and> (None :: jsval option) \<noteq> Some NaN \<and>
   objectPosition (getBannerElements settings_ex
     \<lparr>x_meta = Some (Fin 2), y_meta = None, lock = False\<rparr> ''note.md'' False) = (Fin 100, Fin 50) \<and>
   (\<exists>c r. initial_percent (Some (Fin 2)) = Fin c \<and> 0 \<le> c \<and> c \<le> 100 \<and>
          serialized (Fin c) = Fin r \<and> 0 \<le> r \<and> r \<le> 100 \<and> \<bar>r - c\<bar> \<le> 1 / 1000) \<and>
   (0::int) \<le> 60000 \<and> (60000::int) \<le> 100000 \<and>
   serialized (initial_percent (Some (rnd (6 / 10)))) = Fin 60 \<and>
   normalized (Fin 60) = rnd (6 / 10) \<and>
   objectPosition (getBannerElements settings_ex
     \<lparr>x_meta = None, y_meta = Some NaN, lock = False\<rparr> ''note.md'' False) = unset_style"
proof -
  have h: "Some (Fin 2) \<noteq> Some NaN" "(None :: jsval option) \<noteq> Some NaN" by simp_all
  note c = initial_position [of "\<lparr>x_meta = Some (Fin 2), y_meta = None, lock = False\<rparr>"
      settings_ex "''note.md''" False]
  have c1: "objectPosition (getBannerElements settings_ex
     \<lparr>x_meta = Some (Fin 2), y_meta = None, lock = False\<rparr> ''note.md'' False) = (Fin 100, Fin 50)"
    using c serialized_100 by (simp add: percent_2 del: serialized.simps)
  have c2: "\<exists>c r. initial_percent (Some (Fin 2)) = Fin c \<and> 0 \<le> c \<and> c \<le> 100 \<and>
          serialized (Fin c) = Fin r \<and> 0 \<le> r \<and> r \<le> 100 \<and> \<bar>r - c\<bar> \<le> 1 / 1000"
    using c h(1) by blast
  have k: "(0::int) \<le> 60000" "(60000::int) \<le> 100000" by simp_all
  have "serialized (initial_percent (Some (rnd (rat_of_int 60000 / 100000)))) =
          rnd (rat_of_int 60000 / 1000) \<and>
        normalized (rnd (rat_of_int 60000 / 1000)) = rnd (rat_of_int 60000 / 100000)"
    using c k by blast
  then have c3: "serialized (initial_percent (Some (rnd (6 / 10)))) = Fin 60"
    and c4: "normalized (Fin 60) = rnd (6 / 10)"
    by (simp_all add: rnd_60 del: serialized.simps)
  have c5: "objectPosition (getBannerElements settings_ex
     \<lparr>x_meta = None, y_meta = Some NaN, lock = False\<rparr> ''note.md'' False) = unset_style"
    using initial_position [of "\<lparr>x_meta = None, y_meta = Some NaN, lock = False\<rparr>"
      settings_ex "''note.md''" False] by simp
  show ?thesis using h c1 c2 k c3 c4 c5 by (intro conjI)
qed

text \<open>The claim as stated fails: with \<open>x\<close> NaN no position is rendered at all, and the
  absent \<open>y\<close> does not render as 50.\<close>

theorem initial_position_counterexample:
  "objectPosition (getBannerElements settings_ex
     \<lparr>x_meta = Some NaN, y_meta = None, lock = False\<rparr> ''note.md'' False) = (NaN, Undefined) \<and>
   snd (objectPosition (getBannerElements settings_ex
     \<lparr>x_meta = Some NaN, y_meta = None, lock = False\<rparr> ''note.md'' False)) \<noteq> Fin 50"
  by (simp add: initial_set set_objectPosition_def initial_percent_def unset_style_def)

section \<open>A start during a gesture\<close>

lemma lock_ratio_img_v:
  "num_ge (num_div (Fin (of_nat (naturalHeight (target (ui (MouseEvent (no_keys img_v) px py))))))
                   (Fin (of_nat (naturalWidth (target (ui (MouseEvent (no_keys img_v) px py)))))))
          (num_div (Fin (of_nat (clientHeight (target (ui (MouseEvent (no_keys img_v) px py))))))
                   (Fin (of_nat (clientWidth (target (ui (MouseEvent (no_keys img_v) px py)))))))"
  using lock_img_v by (simp add: axis_lock_def no_keys_def)

lemma lock_ratio_img_h:
  "\<not> num_ge (num_div (Fin (of_nat (naturalHeight (target (ui (MouseEvent (no_keys img_h) px py))))))
                     (Fin (of_nat (naturalWidth (target (ui (MouseEvent (no_keys img_h) px py)))))))
            (num_div (Fin (of_nat (clientHeight (target (ui (MouseEvent (no_keys img_h) px py))))))
                     (Fin (of_nat (clientWidth (target (ui (MouseEvent (no_keys img_h) px py)))))))"
  using lock_img_h by (simp add: axis_lock_def no_keys_def)

lemma started_v:
  "run banner_ex [Start (MouseEvent (no_keys img_v) 100 100)] =
     banner_ex\<lparr>dragData := \<lparr>x_last = Some 100, y_last = Some 100, isDragging = True,
                             vertical = True\<rparr>\<rparr>"
proof -
  have "listening banner_ex (Start (MouseEvent (no_keys img_v) 100 100))"
    by (simp add: banner_ex_fields)
  moreover have "getMousePos (MouseEvent (no_keys img_v) 100 100) = Inr (100, 100)"
    by (simp add: getMousePos_def)
  moreover have "isModPressed (MouseEvent (no_keys img_v) 100 100) (modRequired banner_ex)
      \<or> \<not> instanceof_MouseEvent (MouseEvent (no_keys img_v) 100 100)"
    by (simp add: banner_ex_fields isModPressed_def)
  ultimately show ?thesis
    by (simp add: run_Cons run_Nil dispatch_start_accepted banner_ex_fields no_keys_def lock_img_v)
qed

lemma started_h:
  "run banner_ex [Start (MouseEvent (no_keys img_h) 100 100)] =
     banner_ex\<lparr>dragData := \<lparr>x_last = Some 100, y_last = Some 100, isDragging = True,
                             vertical = False\<rparr>\<rparr>"
proof -
  have "listening banner_ex (Start (MouseEvent (no_keys img_h) 100 100))"
    by (simp add: banner_ex_fields)
  moreover have "getMousePos (MouseEvent (no_keys img_h) 100 100) = Inr (100, 100)"
    by (simp add: getMousePos_def)
  moreover have "isModPressed (MouseEvent (no_keys img_h) 100 100) (modRequired banner_ex)
      \<or> \<not> instanceof_MouseEvent (MouseEvent (no_keys img_h) 100 100)"
    by (simp add: banner_ex_fields isModPressed_def)
  ultimately show ?thesis
    by (simp add: run_Cons run_Nil dispatch_start_accepted banner_ex_fields no_keys_def lock_img_h)
qed

text \<open>
  C10. A start event that passes the modifier gate while a gesture is active is not
  ignored: it overwrites the stored coordinates with the new pointer position and sets
  the axis lock again, to vertical exactly when
  \<open>naturalHeight / naturalWidth >= clientHeight / clientWidth\<close> holds for the geometry of
  this event, whatever the lock was; the end event that follows commits the field of the
  axis locked by this second start.
\<close>

theorem restart_while_active:
  assumes "isDragging (dragData b)" and "listening b (Start e)"
    and "getMousePos e = Inr (px, py)"
    and "isModPressed e (modRequired b) \<or> \<not> instanceof_MouseEvent e"
  shows "dragData (dispatch b (Start e)) =
           (dragData b)\<lparr>x_last := Some px, y_last := Some py, isDragging := True,
              vertical :=
                num_ge (num_div (Fin (of_nat (naturalHeight (target (ui e)))))
                                (Fin (of_nat (naturalWidth (target (ui e))))))
                       (num_div (Fin (of_nat (clientHeight (target (ui e)))))
                                (Fin (of_nat (clientWidth (target (ui e))))))\<rparr> \<and>
         (\<forall>up. (up = MouseUp \<or> up = TouchEnd) \<and> listening b up \<longrightarrow>
            (\<exists>n. upserts (run b [Start e, up]) =
                   upserts b @
                   [(path b,
                     axis_patch
                       (num_ge (num_div (Fin (of_nat (naturalHeight (target (ui e)))))
                                        (Fin (of_nat (naturalWidth (target (ui e))))))
                               (num_div (Fin (of_nat (clientHeight (target (ui e)))))
                                        (Fin (of_nat (clientWidth (target (ui e)))))))
                       n)]))"
proof -
  define v where "v =
    num_ge (num_div (Fin (of_nat (naturalHeight (target (ui e)))))
                    (Fin (of_nat (naturalWidth (target (ui e))))))
           (num_div (Fin (of_nat (clientHeight (target (ui e)))))
                    (Fin (of_nat (clientWidth (target (ui e))))))"
  have lk: "axis_lock (target (ui e)) = v" by (simp only: axis_lock_def v_def)
  have s: "dispatch b (Start e) =
      b\<lparr>dragData := (dragData b)\<lparr>x_last := Some px, y_last := Some py, isDragging := True,
                                   vertical := v\<rparr>\<rparr>"
    using dispatch_start_accepted [OF assms(2-4)] by (simp only: lk)
  have "\<exists>n. upserts (run b [Start e, up]) = upserts b @ [(path b, axis_patch v n)]"
    if "up = MouseUp \<or> up = TouchEnd" "listening b up" for up
  proof -
    have "listening (dispatch b (Start e)) up" using that(2) by (simp only: listening_dispatch)
    then have "dispatch (dispatch b (Start e)) up = on_end (dispatch b (Start e))"
      using that(1) by (rule dispatch_up [rotated])
    then have "upserts (run b [Start e, up]) =
        upserts b @ [(path b, axis_patch v
          (normalized (if v then snd (objectPosition b) else fst (objectPosition b))))]"
      by (simp add: run_Cons run_Nil) (simp add: s on_end_axis_patch)
    then show ?thesis by blast
  qed
  then show ?thesis using s unfolding v_def by simp
qed

theorem restart_while_active_witness:
  "isDragging (dragData (run banner_ex [Start (MouseEvent (no_keys img_v) 100 100)])) \<and>
   vertical (dragData (run banner_ex [Start (MouseEvent (no_keys img_v) 100 100)])) \<and>
   listening (run banner_ex [Start (MouseEvent (no_keys img_v) 100 100)])
     (Start (MouseEvent (no_keys img_h) 30 40)) \<and>
   getMousePos (MouseEvent (no_keys img_h) 30 40) = Inr (30, 40) \<and>
   isModPressed (MouseEvent (no_keys img_h) 30 40)
     (modRequired (run banner_ex [Start (MouseEvent (no_keys img_v) 100 100)])) \<and>
   listening (run banner_ex [Start (MouseEvent (no_keys img_v) 100 100)]) MouseUp \<and>
   dragData (dispatch (run banner_ex [Start (MouseEvent (no_keys img_v) 100 100)])
       (Start (MouseEvent (no_keys img_h) 30 40))) =
     \<lparr>x_last = Some 30, y_last = Some 40, isDragging = True, vertical = False\<rparr> \<and>
   (\<exists>n. upserts (run (run banner_ex [Start (MouseEvent (no_keys img_v) 100 100)])
            [Start (MouseEvent (no_keys img_h) 30 40), MouseUp]) =
         [(''note.md'', \<lparr>x_field = Some n, y_field = None\<rparr>)]) \<and>
   isDragging (dragData (run banner_ex [Start (MouseEvent (no_keys img_h) 100 100)])) \<and>
   \<not> vertical (dragData (run banner_ex [Start (MouseEvent (no_keys img_h) 100 100)])) \<and>
   listening (run banner_ex [Start (MouseEvent (no_keys img_h) 100 100)])
     (Start (MouseEvent (no_keys img_v) 30 40)) \<and>
   getMousePos (MouseEvent (no_keys img_v) 30 40) = Inr (30, 40) \<and>
   isModPressed (MouseEvent (no_keys img_v) 30 40)
     (modRequired (run banner_ex [Start (MouseEvent (no_keys img_h) 100 100)])) \<and>
   listening (run banner_ex [Start (MouseEvent (no_keys img_h) 100 100)]) MouseUp \<and>
   dragData (dispatch (run banner_ex [Start (MouseEvent (no_keys img_h) 100 100)])
       (Start (MouseEvent (no_keys img_v) 30 40))) =
     \<lparr>x_last = Some 30, y_last = Some 40, isDragging = True, vertical = True\<rparr> \<and>
   (\<exists>n. upserts (run (run banner_ex [Start (MouseEvent (no_keys img_h) 100 100)])
            [Start (MouseEvent (no_keys img_v) 30 40), MouseUp]) =
         [(''note.md'', \<lparr>x_field = None, y_field = Some n\<rparr>)])"
proof -
  define b1 where "b1 = run banner_ex [Start (MouseEvent (no_keys img_v) 100 100)]"
  define b2 where "b2 = run banner_ex [Start (MouseEvent (no_keys img_h) 100 100)]"
  have b1: "b1 = banner_ex\<lparr>dragData := \<lparr>x_last = Some 100, y_last = Some 100, isDragging = True,
                                         vertical = True\<rparr>\<rparr>"
    by (simp only: b1_def started_v)
  have b2: "b2 = banner_ex\<lparr>dragData := \<lparr>x_last = Some 100, y_last = Some 100, isDragging = True,
                                         vertical = False\<rparr>\<rparr>"
    by (simp only: b2_def started_h)
  have g1: "isDragging (dragData b1)" and v1: "vertical (dragData b1)"
    by (simp_all add: b1)
  have g2: "listening b1 (Start (MouseEvent (no_keys img_h) 30 40))"
    and g5: "listening b1 MouseUp"
    by (simp_all add: b1 banner_ex_fields)
  have g3: "getMousePos (MouseEvent (no_keys img_h) 30 40) = Inr (30, 40)"
    by (simp add: getMousePos_def)
  have g4: "isModPressed (MouseEvent (no_keys img_h) 30 40) (modRequired b1)"
    by (simp add: b1 banner_ex_fields isModPressed_def)
  have g4': "isModPressed (MouseEvent (no_keys img_h) 30 40) (modRequired b1)
      \<or> \<not> instanceof_MouseEvent (MouseEvent (no_keys img_h) 30 40)"
    using g4 by simp
  note c = restart_while_active [OF g1 g2 g3 g4']
  have c1: "dragData (dispatch b1 (Start (MouseEvent (no_keys img_h) 30 40))) =
     \<lparr>x_last = Some 30, y_last = Some 40, isDragging = True, vertical = False\<rparr>"
    using c lock_ratio_img_h [of 30 40] by (simp add: b1)
  have "\<exists>n. upserts (run b1 [Start (MouseEvent (no_keys img_h) 30 40), MouseUp]) =
         upserts b1 @ [(path b1, axis_patch False n)]"
    using c g5 lock_ratio_img_h [of 30 40] by simp
  then have c2: "\<exists>n. upserts (run b1 [Start (MouseEvent (no_keys img_h) 30 40), MouseUp]) =
         [(''note.md'', \<lparr>x_field = Some n, y_field = None\<rparr>)]"
    by (simp add: b1 banner_ex_fields axis_patch_def)
  have k1: "isDragging (dragData b2)" and w1: "\<not> vertical (dragData b2)"
    by (simp_all add: b2)
  have k2: "listening b2 (Start (MouseEvent (no_keys img_v) 30 40))"
    and k5: "listening b2 MouseUp"
    by (simp_all add: b2 banner_ex_fields)
  have k3: "getMousePos (MouseEvent (no_keys img_v) 30 40) = Inr (30, 40)"
    by (simp add: getMousePos_def)
  have k4: "isModPressed (MouseEvent (no_keys img_v) 30 40) (modRequired b2)"
    by (simp add: b2 banner_ex_fields isModPressed_def)
  have k4': "isModPressed (MouseEvent (no_keys img_v) 30 40) (modRequired b2)
      \<or> \<not> instanceof_MouseEvent (MouseEvent (no_keys img_v) 30 40)"
    using k4 by simp
  note d = restart_while_active [OF k1 k2 k3 k4']
  have d1: "dragData (dispatch b2 (Start (MouseEvent (no_keys img_v) 30 40))) =
     \<lparr>x_last = Some 30, y_last = Some 40, isDragging = True, vertical = True\<rparr>"
    using d lock_ratio_img_v [of 30 40] by (simp add: b2)
  have "\<exists>n. upserts (run b2 [Start (MouseEvent (no_keys img_v) 30 40), MouseUp]) =
         upserts b2 @ [(path b2, axis_patch True n)]"
    using d k5 lock_ratio_img_v [of 30 40] by simp
  then have d2: "\<exists>n. upserts (run b2 [Start (MouseEvent (no_keys img_v) 30 40), MouseUp]) =
         [(''note.md'', \<lparr>x_field = None, y_field = Some n\<rparr>)]"
    by (simp add: b2 banner_ex_fields axis_patch_def)
  show ?thesis
    unfolding b1_def [symmetric] b2_def [symmetric]
    using g1 v1 g2 g3 g4 g5 c1 c2 k1 w1 k2 k3 k4 k5 d1 d2 by (intro conjI)
qed

end
